theory Spec2Isabelle
  imports Main
begin

section \<open>Python strings\<close>

text \<open>
  The module under study is \<^verbatim>\<open>src/_02_pdf_generator.py\<close> (class
  \<^verbatim>\<open>Web3NewsPDFGenerator\<close>). A Python \<^verbatim>\<open>str\<close> is modelled as a
  \<^typ>\<open>string\<close>: one \<^typ>\<open>char\<close> per code point, for code points 0..255.
  \<^verbatim>\<open>len\<close> is \<^const>\<open>length\<close>, \<^verbatim>\<open>s[:n]\<close> is \<^const>\<open>take\<close>,
  \<^verbatim>\<open>s[n:]\<close> is \<^const>\<open>drop\<close>, \<^verbatim>\<open>+\<close> is \<^const>\<open>append\<close>.
\<close>

definition newline :: char where
  "newline = CHR 0x0A"

definition tab :: char where
  "tab = CHR 0x09"

definition backslash :: char where
  "backslash = CHR 0x5C"

definition dquote :: char where
  "dquote = CHR 0x22"

text \<open>\<^verbatim>\<open>str.isspace\<close> on one character: the white space of the range 0..255.\<close>

definition isspace :: "char \<Rightarrow> bool" where
  "isspace c =
     (let n = (of_char c :: nat)
      in (9 \<le> n \<and> n \<le> 13) \<or> (28 \<le> n \<and> n \<le> 32) \<or> n = 133 \<or> n = 160)"

text \<open>The regular expression class \<^verbatim>\<open>\d\<close>: the decimal digits of the range.\<close>

definition isdigit :: "char \<Rightarrow> bool" where
  "isdigit c = (let n = (of_char c :: nat) in 48 \<le> n \<and> n \<le> 57)"

definition lstrip :: "string \<Rightarrow> string" where
  "lstrip s = dropWhile isspace s"

definition rstrip :: "string \<Rightarrow> string" where
  "rstrip s = rev (dropWhile isspace (rev s))"

definition strip :: "string \<Rightarrow> string" where
  "strip s = lstrip (rstrip s)"

text \<open>\<^verbatim>\<open>str.lower\<close>: A..Z and the upper-case letters of 192..222 (215 is the
  multiplication sign) move up by 32.\<close>

definition lower_char :: "char \<Rightarrow> char" where
  "lower_char c =
     (let n = (of_char c :: nat)
      in if (65 \<le> n \<and> n \<le> 90) \<or> (192 \<le> n \<and> n \<le> 222 \<and> n \<noteq> 215)
         then char_of (n + 32) else c)"

definition lower :: "string \<Rightarrow> string" where
  "lower s = map lower_char s"

text \<open>\<^verbatim>\<open>s.startswith(p)\<close>.\<close>

definition startswith :: "string \<Rightarrow> string \<Rightarrow> bool" where
  "startswith s p = (take (length p) s = p)"

text \<open>\<^verbatim>\<open>sub in s\<close>.\<close>

fun contains :: "string \<Rightarrow> string \<Rightarrow> bool" where
  "contains sub [] = (sub = [])"
| "contains sub (c # cs) = (startswith (c # cs) sub \<or> contains sub cs)"

text \<open>\<^verbatim>\<open>s.count(sub)\<close> for a non-empty \<^verbatim>\<open>sub\<close>: the occurrences from left to
  right that do not overlap.\<close>

function count_str :: "string \<Rightarrow> string \<Rightarrow> nat" where
  "count_str sub [] = 0"
| "count_str sub (c # cs) =
     (if sub \<noteq> [] \<and> startswith (c # cs) sub
      then Suc (count_str sub (drop (length sub) (c # cs)))
      else count_str sub cs)"
  by pat_completeness auto
termination
  by (relation "measure (\<lambda>(sub, s). length s)") auto

text \<open>\<^verbatim>\<open>s.replace(old, new)\<close> for a non-empty \<^verbatim>\<open>old\<close>.\<close>

function replace :: "string \<Rightarrow> string \<Rightarrow> string \<Rightarrow> string" where
  "replace old new [] = []"
| "replace old new (c # cs) =
     (if old \<noteq> [] \<and> startswith (c # cs) old
      then new @ replace old new (drop (length old) (c # cs))
      else c # replace old new cs)"
  by pat_completeness auto
termination
  by (relation "measure (\<lambda>(old, new, s). length s)") auto

text \<open>\<^verbatim>\<open>s.split('\n')\<close>: never empty, \<^verbatim>\<open>''.split('\n') == ['']\<close>.\<close>

fun split_lines :: "string \<Rightarrow> string list" where
  "split_lines [] = [[]]"
| "split_lines (c # cs) =
     (if c = newline then [] # split_lines cs
      else (case split_lines cs of
              [] \<Rightarrow> [[c]]
            | l # ls \<Rightarrow> (c # l) # ls))"

text \<open>\<^verbatim>\<open>s.split(sep, 1)\<close> for a non-empty \<^verbatim>\<open>sep\<close>: \<open>Some (a, b)\<close> stands for
  the two parts \<^verbatim>\<open>[a, b]\<close> around the first occurrence, \<open>None\<close> for the single
  part \<^verbatim>\<open>[s]\<close> when there is no occurrence.\<close>

fun split_once :: "string \<Rightarrow> string \<Rightarrow> (string \<times> string) option" where
  "split_once sep [] = None"
| "split_once sep (c # cs) =
     (if startswith (c # cs) sep then Some ([], drop (length sep) (c # cs))
      else map_option (\<lambda>(a, b). (c # a, b)) (split_once sep cs))"

section \<open>Section classifier\<close>

text \<open>The strings returned by \<^verbatim>\<open>_detect_section_type\<close>, as an enumeration:
  \<^verbatim>\<open>'executive_summary'\<close>, \<^verbatim>\<open>'background'\<close>, \<^verbatim>\<open>'objective'\<close>,
  \<^verbatim>\<open>'methodology'\<close>, \<^verbatim>\<open>'research_areas'\<close>, \<^verbatim>\<open>'timeline'\<close>,
  \<^verbatim>\<open>'investment'\<close>, \<^verbatim>\<open>'deliverable'\<close>, \<^verbatim>\<open>'research_questions'\<close>,
  \<^verbatim>\<open>'participants'\<close>, \<^verbatim>\<open>'general'\<close>.\<close>

datatype section_type =
    ExecutiveSummary | Background | Objective | Methodology | ResearchAreas | Timeline
  | Investment | Deliverable | ResearchQuestions | Participants | General

text \<open>\<^verbatim>\<open>any(keyword in text_lower for keyword in keywords)\<close>.\<close>

definition any_keyword :: "string list \<Rightarrow> string \<Rightarrow> bool" where
  "any_keyword keywords text_lower = list_ex (\<lambda>keyword. contains keyword text_lower) keywords"

text \<open>\<^verbatim>\<open>_detect_section_type\<close> (lines 542-586): the chain of returns, in the
  order of the source.\<close>

definition detect_section_type :: "string \<Rightarrow> section_type" where
  "detect_section_type text =
     (let text_lower = strip (lower text) in
      if any_keyword [''executive summary'', ''executive overview'', ''summary''] text_lower
        then ExecutiveSummary
      else if any_keyword [''background'', ''opportunity'', ''context'', ''overview''] text_lower
        then Background
      else if any_keyword [''objectives'', ''goals'', ''aims'', ''targets'',
                           ''primary objective'', ''secondary objective''] text_lower
        then Objective
      else if any_keyword [''methodology'', ''approach'', ''methods'', ''process'',
                           ''phases'', ''phase''] text_lower
        then Methodology
      else if any_keyword [''research areas'', ''focus areas'', ''key areas'',
                           ''research focus''] text_lower
        then ResearchAreas
      else if any_keyword [''timeline'', ''schedule'', ''milestones'', ''deadlines''] text_lower
        then Timeline
      else if any_keyword [''investment'', ''budget'', ''cost'', ''funding'',
                           ''financial''] text_lower
        then Investment
      else if any_keyword [''deliverables'', ''outputs'', ''results'', ''outcomes'',
                           ''deliverable''] text_lower
        then Deliverable
      else if any_keyword [''research questions'', ''questions'', ''key questions''] text_lower
        then ResearchQuestions
      else if any_keyword [''participants'', ''target'', ''audience'', ''users'',
                           ''segments''] text_lower
        then Participants
      else General)"

section \<open>Inline formatter\<close>

text \<open>
  The module rewrites inline markers with \<^verbatim>\<open>re.sub\<close>. A pattern is modelled by
  what it does at one position of the text: given the character before the position
  (\<open>None\<close> at the start of the text, for a look-behind) and the text from the position
  on, a matcher returns \<open>Some (replacement, rest)\<close> when the pattern matches there,
  \<open>rest\<close> being the text after the match, and \<open>None\<close> when it does not.
  \<^verbatim>\<open>re.sub\<close> scans from left to right: at a match it emits the replacement and goes
  on after the match, otherwise it copies one character. Every pattern of the module
  consumes at least one character.
\<close>

type_synonym matcher = "char option \<Rightarrow> string \<Rightarrow> (string \<times> string) option"

function re_sub :: "matcher \<Rightarrow> char option \<Rightarrow> string \<Rightarrow> string" where
  "re_sub m prev [] = []"
| "re_sub m prev (c # cs) =
     (case m prev (c # cs) of
        None \<Rightarrow> c # re_sub m (Some c) cs
      | Some (out, rest) \<Rightarrow>
          if length rest \<le> length cs
          then out @ re_sub m (Some ((c # cs) ! (length cs - length rest))) rest
          else c # re_sub m (Some c) cs)"
  by pat_completeness auto
termination
  by (relation "measure (\<lambda>(m, prev, s). length s)") auto

text \<open>The lazy group \<^verbatim>\<open>(.*?)\<close> followed by the closing delimiter \<open>d\<close>: the shortest
  text without a line break (which \<^verbatim>\<open>.\<close> does not match) after which \<open>d\<close> stands;
  the result is the group and the text after the delimiter.\<close>

fun find_close :: "string \<Rightarrow> string \<Rightarrow> (string \<times> string) option" where
  "find_close d [] = None"
| "find_close d (c # cs) =
     (if startswith (c # cs) d then Some ([], drop (length d) (c # cs))
      else if c = newline then None
      else map_option (\<lambda>(g, r). (c # g, r)) (find_close d cs))"

text \<open>\<^verbatim>\<open>d(.*?)d\<close> replaced by \<^verbatim>\<open><b>\1</b>\<close>, for the delimiters
  \<^verbatim>\<open>****\<close>, \<^verbatim>\<open>**\<close> and \<^verbatim>\<open>__\<close> of \<^verbatim>\<open>_process_bold_text\<close>.\<close>

definition bold_pattern :: "string \<Rightarrow> matcher" where
  "bold_pattern d prev s =
     (if startswith s d
      then (case find_close d (drop (length d) s) of
              None \<Rightarrow> None
            | Some (g, r) \<Rightarrow> Some (''<b>'' @ g @ ''</b>'', r))
      else None)"

text \<open>\<^verbatim>\<open>(?<!\*)\*([^*]+)\*(?!\*)\<close> and the same with \<^verbatim>\<open>_\<close>: the marker \<open>ch\<close>
  not preceded by \<open>ch\<close>, one or more characters other than \<open>ch\<close> (the greedy run
  ends at the next \<open>ch\<close>), the marker again, not followed by \<open>ch\<close>.\<close>

definition italic_pattern :: "char \<Rightarrow> matcher" where
  "italic_pattern ch prev s =
     (case s of
        [] \<Rightarrow> None
      | c # rest \<Rightarrow>
          if c = ch \<and> prev \<noteq> Some ch
          then (let run = takeWhile (\<lambda>x. x \<noteq> ch) rest;
                    after = dropWhile (\<lambda>x. x \<noteq> ch) rest
                in if run \<noteq> [] \<and> after \<noteq> [] \<and> \<not> startswith (tl after) [ch]
                   then Some (''<i>'' @ run @ ''</i>'', tl after)
                   else None)
          else None)"

text \<open>\<^verbatim>\<open>`([^`]+)`\<close>.\<close>

definition code_pattern :: matcher where
  "code_pattern prev s =
     (case s of
        [] \<Rightarrow> None
      | c # rest \<Rightarrow>
          if c = CHR 0x60
          then (let run = takeWhile (\<lambda>x. x \<noteq> CHR 0x60) rest;
                    after = dropWhile (\<lambda>x. x \<noteq> CHR 0x60) rest
                in if run \<noteq> [] \<and> after \<noteq> []
                   then Some (''<code>'' @ run @ ''</code>'', tl after)
                   else None)
          else None)"

text \<open>\<^verbatim>\<open>\[([^\]]+)\]\(([^)]+)\)\<close> replaced by
  \<^verbatim>\<open><link href="\2">\1</link>\<close>.\<close>

definition link_pattern :: matcher where
  "link_pattern prev s =
     (case s of
        [] \<Rightarrow> None
      | c # rest \<Rightarrow>
          if c = CHR ''[''
          then (let label = takeWhile (\<lambda>x. x \<noteq> CHR '']'') rest;
                    after = dropWhile (\<lambda>x. x \<noteq> CHR '']'') rest
                in if label \<noteq> [] \<and> startswith after '']('' 
                   then (let rest2 = drop 2 after;
                             url = takeWhile (\<lambda>x. x \<noteq> CHR '')'') rest2;
                             after2 = dropWhile (\<lambda>x. x \<noteq> CHR '')'') rest2
                         in if url \<noteq> [] \<and> after2 \<noteq> []
                            then Some (''<link href='' @ [dquote] @ url @ [dquote] @ ''>''
                                       @ label @ ''</link>'', tl after2)
                            else None)
                   else None)
          else None)"

text \<open>\<^verbatim>\<open>_process_bold_text\<close> (lines 514-524).\<close>

definition process_bold_text :: "string \<Rightarrow> string" where
  "process_bold_text text =
     (let text = re_sub (bold_pattern ''****'') None text;
          text = re_sub (bold_pattern ''**'') None text;
          text = re_sub (bold_pattern ''__'') None text
      in text)"

text \<open>\<^verbatim>\<open>_process_italic_text\<close> (lines 526-533).\<close>

definition process_italic_text :: "string \<Rightarrow> string" where
  "process_italic_text text =
     (let text = re_sub (italic_pattern (CHR ''*'')) None text;
          text = re_sub (italic_pattern (CHR ''_'')) None text
      in text)"

text \<open>\<^verbatim>\<open>_process_code_text\<close> (lines 535-540).\<close>

definition process_code_text :: "string \<Rightarrow> string" where
  "process_code_text text = re_sub code_pattern None text"

text \<open>\<^verbatim>\<open>_process_markdown_text\<close> (lines 588-606).\<close>

definition process_markdown_text :: "string \<Rightarrow> string" where
  "process_markdown_text text =
     (if text = [] then text
      else (let text = process_bold_text text;
                text = process_italic_text text;
                text = process_code_text text;
                text = re_sub link_pattern None text
            in text))"

section \<open>Markdown tokenizer\<close>

text \<open>The tuples appended by \<^verbatim>\<open>_parse_markdown_enhanced\<close>:
  \<^verbatim>\<open>('paragraph', processed_text, section_type)\<close>,
  \<^verbatim>\<open>('header', header_text, header_level, section_type)\<close>,
  \<^verbatim>\<open>('list_item', processed_text, indent_level)\<close>,
  \<^verbatim>\<open>('numbered_list', processed_text, number)\<close>,
  \<^verbatim>\<open>('quote', processed_text)\<close> and \<^verbatim>\<open>('hr', '')\<close>.\<close>

datatype element =
    ParagraphE string section_type
  | HeaderE string nat section_type
  | ListItemE string nat
  | NumberedListE string string
  | QuoteE string
  | HrE

text \<open>The block repeated in every branch: \<^verbatim>\<open>if current_paragraph:\<close> append the
  paragraph; the caller resets \<^verbatim>\<open>current_paragraph\<close>.\<close>

definition flush_paragraph :: "element list \<Rightarrow> string \<Rightarrow> element list" where
  "flush_paragraph elements current_paragraph =
     (if current_paragraph \<noteq> []
      then elements @ [ParagraphE (process_markdown_text (strip current_paragraph))
                                  (detect_section_type (strip current_paragraph))]
      else elements)"

text \<open>\<^verbatim>\<open>re.match(r'^[\-\*\+]\s+', line)\<close>.\<close>

definition match_bullet :: "string \<Rightarrow> bool" where
  "match_bullet line =
     (case line of
        c # d # rest \<Rightarrow> (c = CHR ''-'' \<or> c = CHR ''*'' \<or> c = CHR ''+'') \<and> isspace d
      | _ \<Rightarrow> False)"

text \<open>\<^verbatim>\<open>re.match(r'^\d+\.\s+', line)\<close>.\<close>

definition match_numbered :: "string \<Rightarrow> bool" where
  "match_numbered line =
     (takeWhile isdigit line \<noteq> [] \<and>
      (case dropWhile isdigit line of
         c # d # rest \<Rightarrow> c = CHR ''.'' \<and> isspace d
       | _ \<Rightarrow> False))"

text \<open>The last three checks of the loop body (lines 690-717): block quote, horizontal
  rule, regular text.\<close>

definition parse_rest :: "element list \<Rightarrow> string \<Rightarrow> string \<Rightarrow> element list \<times> string" where
  "parse_rest elements current_paragraph line =
     (if startswith line ''> ''
      then (flush_paragraph elements current_paragraph
              @ [QuoteE (process_markdown_text (strip (drop 2 line)))], [])
      else if line \<in> set [''---'', ''***'', ''___'']
      then (flush_paragraph elements current_paragraph @ [HrE], [])
      else if current_paragraph \<noteq> []
      then (elements, current_paragraph @ '' '' @ line)
      else (elements, line))"

text \<open>One iteration of the loop over the lines (lines 621-717). The state is
  \<^verbatim>\<open>(elements, current_paragraph)\<close>. A line that matches the numbered pattern but
  has no \<^verbatim>\<open>'. '\<close> (the dot is followed by other white space) has its paragraph
  flushed and falls through to the remaining checks.\<close>

definition parse_line :: "element list \<times> string \<Rightarrow> string \<Rightarrow> element list \<times> string" where
  "parse_line state original_line =
     (case state of (elements, current_paragraph) \<Rightarrow>
        let line = strip original_line in
        if line = [] then (flush_paragraph elements current_paragraph, [])
        else if startswith line ''#''
        then (let header_level = length (takeWhile (\<lambda>char. char = CHR ''#'') line);
                  header_text = strip (drop header_level line)
              in (flush_paragraph elements current_paragraph
                    @ [HeaderE header_text header_level (detect_section_type header_text)], []))
        else if match_bullet line
        then (let indent_level = length original_line - length (lstrip original_line);
                  list_text = strip (drop 2 line)
              in (flush_paragraph elements current_paragraph
                    @ [ListItemE (process_markdown_text list_text) indent_level], []))
        else if match_numbered line
        then (case split_once ''. '' line of
                Some (number, list_text) \<Rightarrow>
                  (flush_paragraph elements current_paragraph
                     @ [NumberedListE (process_markdown_text (strip list_text)) number], [])
              | None \<Rightarrow> parse_rest (flush_paragraph elements current_paragraph) [] line)
        else parse_rest elements current_paragraph line)"

text \<open>\<^verbatim>\<open>_parse_markdown_enhanced\<close> (lines 608-725).\<close>

definition parse_markdown_enhanced :: "string \<Rightarrow> element list" where
  "parse_markdown_enhanced text =
     (if text = [] then []
      else (let text = replace [backslash, CHR ''n''] [newline] text;
                text = replace [backslash, CHR ''t''] [tab] text;
                lines = split_lines text
            in case foldl parse_line ([], []) lines of
                 (elements, current_paragraph) \<Rightarrow> flush_paragraph elements current_paragraph))"

section \<open>Render blocks\<close>

text \<open>The \<^verbatim>\<open>ParagraphStyle\<close> attributes set up by \<^verbatim>\<open>_setup_styles\<close> that
  \<^verbatim>\<open>generate_report\<close> and \<^verbatim>\<open>_create_table_of_contents\<close> use, by name.\<close>

datatype style =
    source_header_style | title_style | date_style | link_style | summary_style
  | long_content_style | section_header_style | h4_style | numbered_list_style
  | proposal_h2_style | proposal_h3_style | executive_summary_style | objective_style
  | enhanced_bullet_list_style | enhanced_quote_style | methodology_style
  | deliverable_style | background_style | research_areas_style | timeline_style
  | investment_style | report_title_style | report_date_style

text \<open>The \<^verbatim>\<open>fontName\<close> that \<^verbatim>\<open>_setup_styles\<close> gives each of these styles
  (lines 42-401): \<^verbatim>\<open>'Helvetica-Bold'\<close> for the seven header and title styles,
  \<^verbatim>\<open>'Helvetica-Italic'\<close> for the quote style (line 289), \<^verbatim>\<open>'Helvetica'\<close> for
  the others.\<close>

fun font_name :: "style \<Rightarrow> string" where
  "font_name source_header_style = ''Helvetica-Bold''"
| "font_name title_style = ''Helvetica-Bold''"
| "font_name section_header_style = ''Helvetica-Bold''"
| "font_name h4_style = ''Helvetica-Bold''"
| "font_name proposal_h2_style = ''Helvetica-Bold''"
| "font_name proposal_h3_style = ''Helvetica-Bold''"
| "font_name report_title_style = ''Helvetica-Bold''"
| "font_name enhanced_quote_style = ''Helvetica-Italic''"
| "font_name st = ''Helvetica''"

text \<open>The flowables of the story: \<^verbatim>\<open>Paragraph(text, style)\<close>,
  \<^verbatim>\<open>Spacer(width, height)\<close>, \<^verbatim>\<open>PageBreak()\<close> and
  \<^verbatim>\<open>KeepTogether(flowables)\<close>. A value stands for the constructor call with its
  arguments and, once the call has returned, for the flowable it made.\<close>

datatype block =
    Paragraph string style
  | Spacer nat nat
  | PageBreak
  | KeepTogether "block list"

text \<open>The decorative glyphs of the string literals lie outside the range 0..255; each
  is a constant that holds the bytes of the literal as the source file has them.\<close>

definition toc_glyph :: string where
  "toc_glyph = [CHR 0xC3, CHR 0xB0, CHR 0xC5, CHR 0xB8, CHR 0xE2, CHR 0x80, CHR 0x9C,
                CHR 0xE2, CHR 0x80, CHR 0xB9]"

definition bullet_glyph :: string where
  "bullet_glyph = [CHR 0xC3, CHR 0xA2, CHR 0xE2, CHR 0x82, CHR 0xAC, CHR 0xC2, CHR 0xA2]"

definition report_glyph :: string where
  "report_glyph = [CHR 0xC3, CHR 0xB0, CHR 0xC5, CHR 0xB8, CHR 0xE2, CHR 0x80, CHR 0x9C,
                   CHR 0xC2, CHR 0xB0]"

definition clock_glyph :: string where
  "clock_glyph = [CHR 0xC3, CHR 0xB0, CHR 0xC5, CHR 0xB8, CHR 0xE2, CHR 0x80, CHR 0xA2,
                  CHR 0xE2, CHR 0x80, CHR 0x99]"

definition quote_glyph :: string where
  "quote_glyph = [CHR 0xC3, CHR 0xB0, CHR 0xC5, CHR 0xB8, CHR 0xE2, CHR 0x80, CHR 0x99,
                  CHR 0xC2, CHR 0xAC]"

definition rule_glyph :: string where
  "rule_glyph = [CHR 0xC3, CHR 0xA2, CHR 0xE2, CHR 0x80, CHR 0x9D, CHR 0xE2, CHR 0x82,
                 CHR 0xAC]"

section \<open>Errors and libraries\<close>

text \<open>The exceptions that leave \<^verbatim>\<open>generate_report\<close>: the \<^verbatim>\<open>ValueError\<close> of
  line 801 with its message, the \<^verbatim>\<open>KeyError\<close> of \<^verbatim>\<open>article['source']\<close>
  (line 823) for an article without that key, and the error that the rendering
  library raises inside a \<^verbatim>\<open>Paragraph(text, style)\<close> call (a \<^verbatim>\<open>ValueError\<close>
  with a message of the library's own).\<close>

datatype error = ValueError string | KeyError string | ParagraphError

text \<open>What the module takes from the Python standard library, the clock and the
  rendering library, as parameters: \<^verbatim>\<open>datetime.strptime(date_string, fmt)\<close>
  (\<open>None\<close> when it raises \<^verbatim>\<open>ValueError\<close>), \<^verbatim>\<open>strftime\<close>,
  \<^verbatim>\<open>datetime.now()\<close>, \<^verbatim>\<open>str.title\<close>, and whether the paragraph parser of
  the rendering library accepts a text as markup (it refuses, for one, tags that are
  closed in the wrong order). The type \<open>'d\<close> is that of a \<^verbatim>\<open>datetime\<close> value.\<close>

record 'd pylib =
  strptime :: "string \<Rightarrow> string \<Rightarrow> 'd option"
  strftime :: "'d \<Rightarrow> string \<Rightarrow> string"
  now :: 'd
  str_title :: "string \<Rightarrow> string"
  markup_ok :: "string \<Rightarrow> bool"

text \<open>The face names that the rendering library maps to a font family when no font
  has been registered, which the module never does: the fourteen standard faces,
  looked up in lower case. \<^verbatim>\<open>Helvetica-Italic\<close> is not among them (the slanted
  Helvetica is \<^verbatim>\<open>Helvetica-Oblique\<close>).\<close>

definition standard_faces :: "string list" where
  "standard_faces =
     [''courier'', ''courier-bold'', ''courier-oblique'', ''courier-boldoblique'',
      ''helvetica'', ''helvetica-bold'', ''helvetica-oblique'', ''helvetica-boldoblique'',
      ''times-roman'', ''times-bold'', ''times-italic'', ''times-bolditalic'',
      ''symbol'', ''zapfdingbats'']"

definition known_face :: "string \<Rightarrow> bool" where
  "known_face face = (lower face \<in> set standard_faces)"

text \<open>Whether a constructor call returns: \<^verbatim>\<open>Paragraph(text, style)\<close> returns
  when the face of the style is known and the text is accepted as markup; the other
  constructors always return.\<close>

definition constructs :: "'d pylib \<Rightarrow> block \<Rightarrow> bool" where
  "constructs lib b =
     (case b of
        Paragraph text st \<Rightarrow> known_face (font_name st) \<and> markup_ok lib text
      | _ \<Rightarrow> True)"

text \<open>The evaluation of a constructor call: the flowable, or the error raised.\<close>

definition construct :: "'d pylib \<Rightarrow> block \<Rightarrow> error + block" where
  "construct lib b = (if constructs lib b then Inr b else Inl ParagraphError)"

text \<open>Sequencing: an exception raised by the first computation ends the whole.\<close>

definition then_do :: "error + 'a \<Rightarrow> ('a \<Rightarrow> error + 'b) \<Rightarrow> error + 'b" where
  "then_do r f = (case r of Inl e \<Rightarrow> Inl e | Inr x \<Rightarrow> f x)"

text \<open>A \<^verbatim>\<open>for\<close> loop whose body may raise: the loop ends at the first exception.\<close>

fun try_fold :: "('s \<Rightarrow> 'a \<Rightarrow> error + 's) \<Rightarrow> 's \<Rightarrow> 'a list \<Rightarrow> error + 's" where
  "try_fold f s [] = Inr s"
| "try_fold f s (x # xs) = then_do (f s x) (\<lambda>s'. try_fold f s' xs)"

section \<open>Table of contents\<close>

text \<open>The constructor call in the body of the loop of
  \<^verbatim>\<open>_create_table_of_contents\<close> (lines 735-747).
  \<^verbatim>\<open>"&nbsp;" * (header_level - 1) * 4\<close> repeats the entity
  \<open>4 * (header_level - 1)\<close> times, and not at all for a level below 1.\<close>

definition toc_entry :: "string \<Rightarrow> nat \<Rightarrow> block" where
  "toc_entry header_text header_level =
     (let indent = concat (replicate ((header_level - 1) * 4) ''&nbsp;'');
          toc_text = indent @ bullet_glyph @ '' '' @ header_text
      in if header_level = 1 then Paragraph toc_text title_style
         else if header_level = 2 then Paragraph toc_text section_header_style
         else Paragraph toc_text long_content_style)"

text \<open>The body of the loop (lines 733-747): the entry of a header is constructed
  and appended.\<close>

fun toc_step :: "'d pylib \<Rightarrow> block list \<Rightarrow> element \<Rightarrow> error + block list" where
  "toc_step lib toc_elements (HeaderE header_text header_level section_type) =
     then_do (construct lib (toc_entry header_text header_level))
       (\<lambda>entry. Inr (toc_elements @ [entry]))"
| "toc_step lib toc_elements element = Inr toc_elements"

text \<open>\<^verbatim>\<open>_create_table_of_contents\<close> (lines 727-751).\<close>

definition create_table_of_contents :: "'d pylib \<Rightarrow> element list \<Rightarrow> error + block list" where
  "create_table_of_contents lib elements =
     then_do (construct lib (Paragraph (toc_glyph @ '' Table of Contents'') report_title_style))
       (\<lambda>heading.
          then_do (try_fold (toc_step lib) [heading, Spacer 1 15] elements)
            (\<lambda>toc_elements. Inr (toc_elements @ [Spacer 1 20, PageBreak])))"

section \<open>Layout of one summary\<close>

text \<open>The style chain for a paragraph (lines 875-892).\<close>

definition paragraph_style :: "section_type \<Rightarrow> style" where
  "paragraph_style section_type =
     (if section_type = ExecutiveSummary then executive_summary_style
      else if section_type = Objective then objective_style
      else if section_type = Methodology then methodology_style
      else if section_type = Deliverable then deliverable_style
      else if section_type = Background then background_style
      else if section_type = ResearchAreas then research_areas_style
      else if section_type = Timeline then timeline_style
      else if section_type = Investment then investment_style
      else long_content_style)"

text \<open>The style chain for a header (lines 902-909).\<close>

definition header_style :: "nat \<Rightarrow> style" where
  "header_style header_level =
     (if header_level = 1 then title_style
      else if header_level = 2 then proposal_h2_style
      else if header_level = 3 then proposal_h3_style
      else h4_style)"

text \<open>One iteration of the loop over \<^verbatim>\<open>markdown_elements\<close> (lines 871-934). The
  state is \<^verbatim>\<open>(story, current_section)\<close>. Every \<^verbatim>\<open>Paragraph(...)\<close> call of
  the body is constructed before it is appended, and an error it raises ends the
  loop.\<close>

fun layout_step ::
  "'d pylib \<Rightarrow> block list \<times> block list \<Rightarrow> element \<Rightarrow> error + block list \<times> block list" where
  "layout_step lib (story, current_section) (ParagraphE text section_type) =
     (if text \<noteq> []
      then then_do (construct lib (Paragraph text (paragraph_style section_type)))
             (\<lambda>p. then_do (construct lib (Paragraph text long_content_style))
                (\<lambda>q. Inr (story @ [p], current_section @ [q])))
      else Inr (story, current_section))"
| "layout_step lib (story, current_section) (HeaderE header_text header_level section_type) =
     then_do (construct lib (Paragraph header_text (header_style header_level)))
       (\<lambda>p. let story = story @ [p]
             in if current_section \<noteq> []
                then Inr (story @ [KeepTogether current_section], [])
                else Inr (story, current_section))"
| "layout_step lib (story, current_section) (ListItemE list_text indent_level) =
     then_do (construct lib (Paragraph (bullet_glyph @ '' '' @ list_text)
                               enhanced_bullet_list_style))
       (\<lambda>p. Inr (story @ [p], current_section))"
| "layout_step lib (story, current_section) (NumberedListE list_text number) =
     then_do (construct lib (Paragraph (number @ ''. '' @ list_text) numbered_list_style))
       (\<lambda>p. Inr (story @ [p], current_section))"
| "layout_step lib (story, current_section) (QuoteE quote_text) =
     then_do (construct lib (Paragraph (quote_glyph @ '' '' @ quote_text) enhanced_quote_style))
       (\<lambda>p. Inr (story @ [p], current_section))"
| "layout_step lib (story, current_section) HrE =
     then_do (construct lib (Paragraph (concat (replicate 60 rule_glyph)) long_content_style))
       (\<lambda>p. Inr (story @ [Spacer 1 10, p, Spacer 1 10], current_section))"

text \<open>The loop and the flush after it (lines 869-938).\<close>

definition layout_elements ::
  "'d pylib \<Rightarrow> block list \<Rightarrow> element list \<Rightarrow> error + block list" where
  "layout_elements lib story markdown_elements =
     then_do (try_fold (layout_step lib) (story, []) markdown_elements)
       (\<lambda>(story, current_section).
          if current_section \<noteq> [] then Inr (story @ [KeepTogether current_section])
          else Inr story)"

text \<open>The test of lines 853-857.\<close>

definition is_structured :: "string \<Rightarrow> bool" where
  "is_structured summary =
     (length summary > 500 \<or>
      count_str ''#'' summary > 2 \<or>
      count_str ''**'' summary > 3 \<or>
      count_str ''- '' summary > 3 \<or>
      contains [backslash, CHR ''n''] summary)"

text \<open>The structured branch (lines 860-938).\<close>

definition add_structured :: "'d pylib \<Rightarrow> block list \<Rightarrow> string \<Rightarrow> error + block list" where
  "add_structured lib story summary =
     (let markdown_elements = parse_markdown_enhanced summary
      in then_do (if length markdown_elements > 10
                  then then_do (create_table_of_contents lib markdown_elements)
                         (\<lambda>toc_elements. Inr (story @ toc_elements))
                  else Inr story)
           (\<lambda>story. layout_elements lib story markdown_elements))"

text \<open>The plain branch (lines 941-944).\<close>

definition add_plain :: "'d pylib \<Rightarrow> block list \<Rightarrow> string \<Rightarrow> error + block list" where
  "add_plain lib story summary =
     (let summary = (if length summary > 600 then take 600 summary @ ''...'' else summary)
      in then_do (construct lib (Paragraph summary summary_style))
           (\<lambda>p. Inr (story @ [p])))"

text \<open>Lines 852-944: the summary of one article added to the story.\<close>

definition add_summary :: "'d pylib \<Rightarrow> block list \<Rightarrow> string \<Rightarrow> error + block list" where
  "add_summary lib story summary =
     (if is_structured summary then add_structured lib story summary
      else add_plain lib story summary)"

section \<open>Report assembly\<close>

text \<open>An article is a dictionary from field names to strings.\<close>

type_synonym article = "string \<rightharpoonup> string"

text \<open>\<^verbatim>\<open>article.get(key, default)\<close>.\<close>

definition get_field :: "article \<Rightarrow> string \<Rightarrow> string \<Rightarrow> string" where
  "get_field article key fallback = (case article key of None \<Rightarrow> fallback | Some v \<Rightarrow> v)"

text \<open>\<^verbatim>\<open>_format_source_name\<close> (lines 753-762).\<close>

definition source_mapping :: "(string \<times> string) list" where
  "source_mapping =
     [(''ethereum_blog'', ''Ethereum Blog''),
      (''arbitrum_medium'', ''Arbitrum Medium''),
      (''polygon_blog'', ''Polygon Blog''),
      (''solana_news'', ''Solana News''),
      (''flow_blog'', ''Flow Blog'')]"

definition format_source_name :: "'d pylib \<Rightarrow> string \<Rightarrow> string" where
  "format_source_name lib source =
     (case map_of source_mapping source of
        Some name \<Rightarrow> name
      | None \<Rightarrow> str_title lib (replace ''_'' '' '' source))"

text \<open>The loop over the formats of \<^verbatim>\<open>_format_date\<close> (lines 773-778): the first
  format that parses gives the result.\<close>

fun try_formats :: "'d pylib \<Rightarrow> string \<Rightarrow> string list \<Rightarrow> string option" where
  "try_formats lib date_string [] = None"
| "try_formats lib date_string (fmt # fmts) =
     (case strptime lib date_string fmt of
        Some parsed_date \<Rightarrow> Some (strftime lib parsed_date ''%B %d, %Y'')
      | None \<Rightarrow> try_formats lib date_string fmts)"

definition date_formats :: "string list" where
  "date_formats = [''%a, %d %b %Y %H:%M:%S'', ''%Y-%m-%d'', ''%d %b %Y'']"

text \<open>\<^verbatim>\<open>_format_date\<close> (lines 764-783). The variable \<^verbatim>\<open>date_string\<close> is
  reassigned when the text contains \<^verbatim>\<open>GMT\<close>, and the last \<^verbatim>\<open>return\<close> gives
  the reassigned value.\<close>

definition format_date :: "'d pylib \<Rightarrow> string \<Rightarrow> string" where
  "format_date lib date_string =
     (let date_string = (if contains ''GMT'' date_string
                         then strip (replace ''GMT'' [] date_string)
                         else date_string)
      in case try_formats lib date_string date_formats of
           Some formatted \<Rightarrow> formatted
         | None \<Rightarrow> date_string)"

text \<open>The grouping loop (lines 821-826). A Python dictionary keeps its keys in the
  order of their first insertion: an association list.\<close>

fun group_insert ::
  "(string \<times> article list) list \<Rightarrow> string \<Rightarrow> article \<Rightarrow> (string \<times> article list) list" where
  "group_insert [] source article = [(source, [article])]"
| "group_insert ((key, source_articles) # groups) source article =
     (if key = source then (key, source_articles @ [article]) # groups
      else (key, source_articles) # group_insert groups source article)"

fun group_by_source ::
  "(string \<times> article list) list \<Rightarrow> article list \<Rightarrow> error + (string \<times> article list) list" where
  "group_by_source articles_by_source [] = Inr articles_by_source"
| "group_by_source articles_by_source (article # articles) =
     (case article ''source'' of
        None \<Rightarrow> Inl (KeyError ''source'')
      | Some source \<Rightarrow>
          group_by_source (group_insert articles_by_source source article) articles)"

text \<open>The body of the loop over the articles of a source (lines 835-947).\<close>

definition add_article :: "'d pylib \<Rightarrow> block list \<Rightarrow> article \<Rightarrow> error + block list" where
  "add_article lib story article =
     (let title = get_field article ''title'' ''No Title''
      in then_do (construct lib (Paragraph title title_style))
           (\<lambda>p1.
              let story = story @ [p1];
                  date = get_field article ''date'' ''No Date'';
                  formatted_date = format_date lib date
              in then_do (construct lib (Paragraph (''Published: '' @ formatted_date) date_style))
                   (\<lambda>p2.
                      let story = story @ [p2];
                          link = get_field article ''link'' ''No Link Available''
                      in then_do (construct lib (Paragraph (''Link: '' @ link) link_style))
                           (\<lambda>p3.
                              let story = story @ [p3];
                                  summary = get_field article ''summary'' ''No summary available''
                              in then_do (add_summary lib story summary)
                                   (\<lambda>story. Inr (story @ [Spacer 1 15]))))))"

text \<open>The body of the loop over the sources (lines 829-951).\<close>

definition add_source ::
  "'d pylib \<Rightarrow> (string \<times> article list) list \<Rightarrow> block list \<Rightarrow> string \<times> article list
     \<Rightarrow> error + block list" where
  "add_source lib articles_by_source story entry =
     (case entry of (source, source_articles) \<Rightarrow>
        let formatted_source = format_source_name lib source
        in then_do (construct lib (Paragraph formatted_source source_header_style))
             (\<lambda>p. then_do (try_fold (add_article lib) (story @ [p]) source_articles)
                (\<lambda>story.
                   if length articles_by_source > 1 \<and> source \<noteq> fst (last articles_by_source)
                   then Inr (story @ [PageBreak])
                   else Inr story)))"

text \<open>The generator object: its output file name.\<close>

record generator =
  output_filename :: string

text \<open>The story of \<^verbatim>\<open>generate_report\<close> (lines 813-951), in the order of the
  source: the two paragraphs of the report header, the spacer, the grouping loop and
  the loop over the sources.\<close>

definition build_story ::
  "'d pylib \<Rightarrow> article list \<Rightarrow> error + block list" where
  "build_story lib articles =
     then_do (construct lib (Paragraph (report_glyph @ '' Web3 News Updates Report'')
                               report_title_style))
       (\<lambda>p1.
          then_do (construct lib (Paragraph (clock_glyph @ '' Generated on ''
                                              @ strftime lib (now lib) ''%B %d, %Y at %I:%M %p'')
                                    report_date_style))
            (\<lambda>p2.
               then_do (group_by_source [] articles)
                 (\<lambda>articles_by_source.
                    try_fold (add_source lib articles_by_source) [p1, p2, Spacer 1 20]
                      articles_by_source)))"

text \<open>\<^verbatim>\<open>generate_report\<close> (lines 785-956): the test of the article list,
  the story, and \<^verbatim>\<open>doc.build(story)\<close>. The files are a map from paths to what
  was written: \<^verbatim>\<open>doc.build(story)\<close> writes the story to
  \<^verbatim>\<open>self.output_filename\<close>, and nothing else touches a file. The result is the
  exception raised or the path returned, with the files afterwards.
  \<^verbatim>\<open>doc.build\<close> itself is taken to succeed.\<close>

definition generate_report ::
  "'d pylib \<Rightarrow> generator \<Rightarrow> article list \<Rightarrow> (string \<rightharpoonup> block list)
     \<Rightarrow> (error + string) \<times> (string \<rightharpoonup> block list)" where
  "generate_report lib self articles files =
     (if articles = []
      then (Inl (ValueError ''No articles provided for PDF generation''), files)
      else (case build_story lib articles of
              Inl e \<Rightarrow> (Inl e, files)
            | Inr story \<Rightarrow>
                (Inr (output_filename self), files(output_filename self \<mapsto> story))))"

section \<open>Notions for stating the properties\<close>

text \<open>The specification's reading of the classifier: an ordered list of categories
  with their keyword sets, tested in sequence on the lower-cased text; the first
  category with a keyword in the text wins, and \<open>General\<close> is the fallback.\<close>

definition section_keywords :: "(section_type \<times> string list) list" where
  "section_keywords =
     [(ExecutiveSummary, [''executive summary'', ''executive overview'', ''summary'']),
      (Background, [''background'', ''opportunity'', ''context'', ''overview'']),
      (Objective, [''objectives'', ''goals'', ''aims'', ''targets'',
                   ''primary objective'', ''secondary objective'']),
      (Methodology, [''methodology'', ''approach'', ''methods'', ''process'',
                     ''phases'', ''phase'']),
      (ResearchAreas, [''research areas'', ''focus areas'', ''key areas'', ''research focus'']),
      (Timeline, [''timeline'', ''schedule'', ''milestones'', ''deadlines'']),
      (Investment, [''investment'', ''budget'', ''cost'', ''funding'', ''financial'']),
      (Deliverable, [''deliverables'', ''outputs'', ''results'', ''outcomes'', ''deliverable'']),
      (ResearchQuestions, [''research questions'', ''questions'', ''key questions'']),
      (Participants, [''participants'', ''target'', ''audience'', ''users'', ''segments''])]"

definition first_category :: "string \<Rightarrow> section_type" where
  "first_category text_lower =
     (case find (\<lambda>(category, keywords). any_keyword keywords text_lower)
             section_keywords of
        None \<Rightarrow> General
      | Some (category, keywords) \<Rightarrow> category)"

text \<open>A keyword that neither starts nor ends with white space: stripping a text
  cannot cut into an occurrence of it.\<close>

definition plain_keyword :: "string \<Rightarrow> bool" where
  "plain_keyword k = (k \<noteq> [] \<and> \<not> isspace (hd k) \<and> \<not> isspace (last k))"

text \<open>The chain of tests of \<^const>\<open>detect_section_type\<close> over a table.\<close>

fun chain :: "(section_type \<times> string list) list \<Rightarrow> string \<Rightarrow> section_type" where
  "chain [] t = General"
| "chain ((category, keywords) # rest) t = (if any_keyword keywords t then category else chain rest t)"

text \<open>The style of a paragraph by its category, as a table: eight categories have a
  style of their own, the three others take the generic long-form style.\<close>

fun category_style :: "section_type \<Rightarrow> style" where
  "category_style ExecutiveSummary = executive_summary_style"
| "category_style Background = background_style"
| "category_style Objective = objective_style"
| "category_style Methodology = methodology_style"
| "category_style ResearchAreas = research_areas_style"
| "category_style Timeline = timeline_style"
| "category_style Investment = investment_style"
| "category_style Deliverable = deliverable_style"
| "category_style ResearchQuestions = long_content_style"
| "category_style Participants = long_content_style"
| "category_style General = long_content_style"

text \<open>The style of a header by its level, as a table.\<close>

fun level_style :: "nat \<Rightarrow> style" where
  "level_style (Suc 0) = title_style"
| "level_style (Suc (Suc 0)) = proposal_h2_style"
| "level_style (Suc (Suc (Suc 0))) = proposal_h3_style"
| "level_style n = h4_style"

text \<open>What one element appends to the story itself: a non-empty paragraph in the
  style of its category, a header in the style of its level, a list item, a numbered
  item, a quote, and a rule as a divider between two spacers.\<close>

fun direct_blocks :: "element \<Rightarrow> block list" where
  "direct_blocks (ParagraphE text section_type) =
     (if text \<noteq> [] then [Paragraph text (category_style section_type)] else [])"
| "direct_blocks (HeaderE header_text header_level section_type) =
     [Paragraph header_text (level_style header_level)]"
| "direct_blocks (ListItemE list_text indent_level) =
     [Paragraph (bullet_glyph @ '' '' @ list_text) enhanced_bullet_list_style]"
| "direct_blocks (NumberedListE list_text number) =
     [Paragraph (number @ ''. '' @ list_text) numbered_list_style]"
| "direct_blocks (QuoteE quote_text) =
     [Paragraph (quote_glyph @ '' '' @ quote_text) enhanced_quote_style]"
| "direct_blocks HrE =
     [Spacer 1 10, Paragraph (concat (replicate 60 rule_glyph)) long_content_style, Spacer 1 10]"

text \<open>What one element adds to the section buffer: the copy of a non-empty
  paragraph in the generic long-form style, and nothing for any other element.\<close>

fun buffered_blocks :: "element \<Rightarrow> block list" where
  "buffered_blocks (ParagraphE text section_type) =
     (if text \<noteq> [] then [Paragraph text long_content_style] else [])"
| "buffered_blocks element = []"

fun is_header :: "element \<Rightarrow> bool" where
  "is_header (HeaderE header_text header_level section_type) = True"
| "is_header element = False"

fun is_quote :: "element \<Rightarrow> bool" where
  "is_quote (QuoteE quote_text) = True"
| "is_quote element = False"

text \<open>A buffer emitted as a keep-together group, when it is not empty.\<close>

definition keep_together :: "block list \<Rightarrow> block list" where
  "keep_together current_section =
     (if current_section \<noteq> [] then [KeepTogether current_section] else [])"

text \<open>The blocks of a story outside the keep-together groups, and the members of its
  groups, both in order.\<close>

fun ungrouped :: "block list \<Rightarrow> block list" where
  "ungrouped [] = []"
| "ungrouped (KeepTogether members # blocks) = ungrouped blocks"
| "ungrouped (b # blocks) = b # ungrouped blocks"

fun group_members :: "block list \<Rightarrow> block list" where
  "group_members [] = []"
| "group_members (KeepTogether members # blocks) = members @ group_members blocks"
| "group_members (b # blocks) = group_members blocks"

text \<open>An element is accepted when every constructor call made for it returns: the
  calls for the blocks it appends to the story and to the section buffer.\<close>

definition accepted :: "'d pylib \<Rightarrow> element \<Rightarrow> bool" where
  "accepted lib element =
     list_all (constructs lib) (direct_blocks element @ buffered_blocks element)"

text \<open>The layout loop when every constructor call returns: the step on the state
  \<^verbatim>\<open>(story, current_section)\<close>, and the loop with the flush after it.\<close>

fun layout_step_ok :: "block list \<times> block list \<Rightarrow> element \<Rightarrow> block list \<times> block list" where
  "layout_step_ok (story, current_section) (HeaderE header_text header_level section_type) =
     (if current_section \<noteq> []
      then (story @ direct_blocks (HeaderE header_text header_level section_type)
                  @ [KeepTogether current_section], [])
      else (story @ direct_blocks (HeaderE header_text header_level section_type),
            current_section))"
| "layout_step_ok (story, current_section) element =
     (story @ direct_blocks element, current_section @ buffered_blocks element)"

definition layout_elements_ok :: "block list \<Rightarrow> element list \<Rightarrow> block list" where
  "layout_elements_ok story markdown_elements =
     (case foldl layout_step_ok (story, []) markdown_elements of
        (story, current_section) \<Rightarrow> story @ keep_together current_section)"

text \<open>A library in which no text parses as a date and every text is accepted as
  markup.\<close>

definition rejecting_lib :: "unit pylib" where
  "rejecting_lib =
     \<lparr>strptime = (\<lambda>date_string fmt. None), strftime = (\<lambda>d fmt. []), now = (),
      str_title = (\<lambda>s. s), markup_ok = (\<lambda>s. True)\<rparr>"

text \<open>A summary without any of the four markers the routing test looks for.\<close>

definition marker_free :: "string \<Rightarrow> bool" where
  "marker_free summary =
     (\<not> contains ''#'' summary \<and> \<not> contains ''**'' summary \<and>
      \<not> contains ''- '' summary \<and> \<not> contains [backslash, CHR ''n''] summary)"

text \<open>The text and level of the header elements, in order.\<close>

fun header_entries :: "element list \<Rightarrow> (string \<times> nat) list" where
  "header_entries [] = []"
| "header_entries (HeaderE header_text header_level section_type # elements) =
     (header_text, header_level) # header_entries elements"
| "header_entries (element # elements) = header_entries elements"

text \<open>A summary of eleven header lines, and an article that has only this summary.\<close>

definition toc_example :: string where
  "toc_example = ''#a'' @ [newline] @ ''#a'' @ [newline] @ ''#a'' @ [newline] @ ''#a'' @ [newline]
     @ ''#a'' @ [newline] @ ''#a'' @ [newline] @ ''#a'' @ [newline] @ ''#a'' @ [newline]
     @ ''#a'' @ [newline] @ ''#a'' @ [newline] @ ''##b''"

definition toc_article :: article where
  "toc_article = [''summary'' \<mapsto> toc_example]"

text \<open>The blocks of the table of contents: a heading, a spacer, one entry per header
  element in order, a spacer and a forced page break.\<close>

definition toc_blocks :: "element list \<Rightarrow> block list" where
  "toc_blocks elements =
     [Paragraph (toc_glyph @ '' Table of Contents'') report_title_style, Spacer 1 15]
     @ map (\<lambda>(header_text, header_level). toc_entry header_text header_level)
           (header_entries elements)
     @ [Spacer 1 20, PageBreak]"

text \<open>A summary of three header lines and a quote line, and an article with this
  summary.\<close>

definition quote_example :: string where
  "quote_example = ''#a'' @ [newline] @ ''#a'' @ [newline] @ ''#a'' @ [newline] @ ''> q''"

definition quote_article :: article where
  "quote_article = [''source'' \<mapsto> ''news'', ''summary'' \<mapsto> quote_example]"

text \<open>Whether a pattern matches at some position of a text, scanning as
  \<^const>\<open>re_sub\<close> does, with the character before each position.\<close>

fun matches_in :: "matcher \<Rightarrow> char option \<Rightarrow> string \<Rightarrow> bool" where
  "matches_in m prev [] = False"
| "matches_in m prev (c # cs) =
     (case m prev (c # cs) of
        Some found \<Rightarrow> True
      | None \<Rightarrow> matches_in m (Some c) cs)"

text \<open>The seven patterns of the inline formatter, in the order in which
  \<^const>\<open>process_markdown_text\<close> applies them, and a text in which none of them
  matches anywhere.\<close>

definition formatter_patterns :: "matcher list" where
  "formatter_patterns =
     [bold_pattern ''****'', bold_pattern ''**'', bold_pattern ''__'',
      italic_pattern (CHR ''*''), italic_pattern (CHR ''_''),
      code_pattern, link_pattern]"

definition settled :: "string \<Rightarrow> bool" where
  "settled t = list_all (\<lambda>m. \<not> matches_in m None t) formatter_patterns"

text \<open>The number of \<^verbatim>\<open><\<close> characters of a text: every replacement of the formatter
  adds two.\<close>

definition tags :: "string \<Rightarrow> nat" where
  "tags t = length (filter (\<lambda>c. c = CHR ''<'') t)"

section \<open>Facts about strings\<close>

lemma contains_iff: "contains sub s \<longleftrightarrow> (\<exists>a b. s = a @ sub @ b)"
proof (induction s)
  case Nil
  then show ?case by auto
next
  case (Cons c cs)
  show ?case
  proof
    assume "contains sub (c # cs)"
    then consider "startswith (c # cs) sub" | "contains sub cs" by auto
    then show "\<exists>a b. c # cs = a @ sub @ b"
    proof cases
      case 1
      then have "c # cs = [] @ sub @ drop (length sub) (c # cs)"
        unfolding startswith_def by (metis append_Nil append_take_drop_id)
      then show ?thesis by blast
    next
      case 2
      then obtain a b where "cs = a @ sub @ b" using Cons.IH by blast
      then have "c # cs = (c # a) @ sub @ b" by simp
      then show ?thesis by blast
    qed
  next
    assume "\<exists>a b. c # cs = a @ sub @ b"
    then obtain a b where ab: "c # cs = a @ sub @ b" by blast
    show "contains sub (c # cs)"
    proof (cases a)
      case Nil
      then have "startswith (c # cs) sub" using ab by (simp add: startswith_def)
      then show ?thesis by simp
    next
      case (Cons x a')
      then have "cs = a' @ sub @ b" using ab by simp
      then show ?thesis using Cons.IH by auto
    qed
  qed
qed

lemma dropWhile_keeps:
  assumes "k \<noteq> []" "\<not> P (hd k)"
  shows "dropWhile P (a @ k @ b) = dropWhile P a @ k @ b"
proof -
  have "dropWhile P (k @ b) = k @ b" using assms by (cases k) auto
  then show ?thesis by (simp add: dropWhile_append)
qed

lemma contains_strip:
  assumes "k \<noteq> []" "\<not> isspace (hd k)" "\<not> isspace (last k)"
  shows "contains k (strip s) = contains k s"
proof
  assume "contains k s"
  then obtain a b where s: "s = a @ k @ b" by (auto simp: contains_iff)
  have "rev s = rev b @ rev k @ rev a" using s by simp
  moreover have "rev k \<noteq> []" "\<not> isspace (hd (rev k))" using assms by (simp_all add: hd_rev)
  ultimately have "dropWhile isspace (rev s) = dropWhile isspace (rev b) @ rev k @ rev a"
    by (simp add: dropWhile_keeps)
  then have "rstrip s = a @ k @ rev (dropWhile isspace (rev b))" by (simp add: rstrip_def)
  then have "strip s = dropWhile isspace a @ k @ rev (dropWhile isspace (rev b))"
    using assms by (simp add: strip_def lstrip_def dropWhile_keeps)
  then show "contains k (strip s)" unfolding contains_iff by blast
next
  assume "contains k (strip s)"
  then obtain a b where st: "strip s = a @ k @ b" by (auto simp: contains_iff)
  have "rstrip s = takeWhile isspace (rstrip s) @ strip s"
    by (simp add: strip_def lstrip_def)
  moreover have "s = rstrip s @ rev (takeWhile isspace (rev s))"
    unfolding rstrip_def by (metis rev_append rev_rev_ident takeWhile_dropWhile_id)
  ultimately have "s = (takeWhile isspace (rstrip s) @ a) @ k @ (b @ rev (takeWhile isspace (rev s)))"
    using st by (metis append.assoc)
  then show "contains k s" unfolding contains_iff by blast
qed

lemma contains_hd: "contains sub s \<Longrightarrow> sub \<noteq> [] \<Longrightarrow> hd sub \<in> set s"
proof (induction s)
  case Nil
  then show ?case by simp
next
  case (Cons c cs)
  then show ?case by (cases sub) (auto simp: startswith_def)
qed

lemma not_contains: "sub \<noteq> [] \<Longrightarrow> hd sub \<notin> set s \<Longrightarrow> \<not> contains sub s"
  using contains_hd by blast

lemma count_str_absent: "\<not> contains sub s \<Longrightarrow> count_str sub s = 0"
  by (induction sub s rule: count_str.induct) auto

lemma startswith_hd: "startswith s p \<Longrightarrow> p \<noteq> [] \<Longrightarrow> s \<noteq> [] \<and> hd s = hd p"
  unfolding startswith_def by (cases p; cases s) auto

lemma replace_absent: "hd old \<notin> set s \<Longrightarrow> replace old new s = s"
proof (induction s)
  case Nil
  show ?case by simp
next
  case (Cons c cs)
  have "\<not> (old \<noteq> [] \<and> startswith (c # cs) old)"
    using Cons.prems startswith_hd [of "c # cs" old] by auto
  then show ?case using Cons by auto
qed

lemma split_lines_single: "newline \<notin> set s \<Longrightarrow> split_lines s = [s]"
  by (induction s) auto

lemma lstrip_nonspace: "s = [] \<or> \<not> isspace (hd s) \<Longrightarrow> lstrip s = s"
  by (cases s) (auto simp: lstrip_def)

lemma rstrip_append: "a \<noteq> [] \<Longrightarrow> \<not> isspace (last a) \<Longrightarrow> rstrip (a @ b) = a @ rstrip b"
proof -
  assume a: "a \<noteq> []" "\<not> isspace (last a)"
  obtain xs x where xs: "a = xs @ [x]" using a(1) by (cases a rule: rev_cases) auto
  have "dropWhile isspace (rev a) = rev a"
    using a(2) by (simp add: xs)
  then have "dropWhile isspace (rev b @ rev a) = dropWhile isspace (rev b) @ rev a"
    by (simp add: dropWhile_append)
  then show ?thesis by (simp add: rstrip_def)
qed

lemma rstrip_nonspace: "s = [] \<or> \<not> isspace (last s) \<Longrightarrow> rstrip s = s"
proof (cases "s = []")
  case True
  then show ?thesis by (simp add: rstrip_def)
next
  case False
  assume "s = [] \<or> \<not> isspace (last s)"
  then have "rstrip (s @ []) = s @ rstrip []"
    using False by (intro rstrip_append) auto
  then show ?thesis by (simp add: rstrip_def)
qed

lemma rstrip_prefix: "s = rstrip s @ rev (takeWhile isspace (rev s))"
  unfolding rstrip_def by (metis rev_append rev_rev_ident takeWhile_dropWhile_id)

lemma rstrip_idem: "rstrip (rstrip s) = rstrip s"
  by (simp add: rstrip_def)

lemma strip_rstrip: "strip (rstrip s) = strip s"
  by (simp add: strip_def rstrip_idem)

lemma rstrip_Cons:
  "rstrip (c # s) = (if rstrip s = [] \<and> isspace c then [] else c # rstrip s)"
  by (simp add: rstrip_def dropWhile_append)

lemma strip_space_Cons: "isspace c \<Longrightarrow> strip (c # s) = strip s"
  by (simp add: strip_def rstrip_Cons lstrip_def)

lemma strip_nonspace:
  "s = [] \<or> (\<not> isspace (hd s) \<and> \<not> isspace (last s)) \<Longrightarrow> strip s = s"
  by (auto simp: strip_def rstrip_nonspace lstrip_nonspace)

lemma rstrip_hd: "rstrip s \<noteq> [] \<Longrightarrow> hd (rstrip s) = hd s"
  by (metis hd_append2 rstrip_prefix)

lemma lower_append: "lower (a @ b) = lower a @ lower b"
  by (simp add: lower_def)

lemmas str_eval = startswith_def strip_def lstrip_def rstrip_def isspace_def isdigit_def
  newline_def tab_def backslash_def

section \<open>Facts about the classifier\<close>

lemma any_keyword_strip:
  assumes "list_all plain_keyword ks"
  shows "any_keyword ks (strip s) = any_keyword ks s"
  using assms by (induction ks) (auto simp: any_keyword_def contains_strip plain_keyword_def)

lemma keywords_plain: "list_all (\<lambda>(category, keywords). list_all plain_keyword keywords) section_keywords"
  by code_simp

lemma detect_chain: "detect_section_type text = chain section_keywords (strip (lower text))"
  by (simp only: detect_section_type_def Let_def section_keywords_def chain.simps)

lemma chain_strip:
  "list_all (\<lambda>(category, keywords). list_all plain_keyword keywords) tbl \<Longrightarrow>
   chain tbl (strip s) = chain tbl s"
  by (induction tbl s rule: chain.induct) (simp_all add: any_keyword_strip)

lemma chain_find:
  "chain tbl t =
     (case find (\<lambda>(category, keywords). any_keyword keywords t) tbl of
        None \<Rightarrow> General
      | Some (category, keywords) \<Rightarrow> category)"
  by (induction tbl t rule: chain.induct) simp_all

lemma detect_a: "detect_section_type ''a'' = General"
  by code_simp

lemma detect_b: "detect_section_type ''b'' = General"
  by code_simp

section \<open>Facts about the inline formatter\<close>

lemmas fmt_eval = process_markdown_text_def process_bold_text_def process_italic_text_def
  process_code_text_def bold_pattern_def italic_pattern_def code_pattern_def link_pattern_def
  Let_def startswith_def newline_def dquote_def

lemma tags_append [simp]: "tags (a @ b) = tags a + tags b"
  by (simp add: tags_def)

lemma tags_Cons: "tags (c # cs) = (if c = CHR ''<'' then 1 else 0) + tags cs"
  by (simp add: tags_def)

lemma tags_absent: "CHR ''<'' \<notin> set d \<Longrightarrow> tags d = 0"
  by (induction d) (auto simp: tags_def)

lemma re_sub_unmatched: "\<not> matches_in m prev u \<Longrightarrow> re_sub m prev u = u"
proof (induction u arbitrary: prev)
  case Nil
  show ?case by simp
next
  case (Cons c cs)
  then show ?case by (cases "m prev (c # cs)") auto
qed

lemma re_sub_tags:
  assumes wb: "\<And>p u out rest. m p u = Some (out, rest) \<Longrightarrow>
                 \<exists>consumed. u = consumed @ rest \<and> consumed \<noteq> [] \<and> tags consumed < tags out"
  shows "tags u \<le> tags (re_sub m prev u) \<and>
         (matches_in m prev u \<longrightarrow> tags u < tags (re_sub m prev u))"
  using wb
proof (induction m prev u rule: re_sub.induct)
  case (1 m prev)
  show ?case by simp
next
  case (2 m prev c cs)
  note wb = "2.prems"
  show ?case
  proof (cases "m prev (c # cs)")
    case None
    then show ?thesis using "2.IH"(1) [OF None wb] by (simp add: tags_Cons)
  next
    case (Some found)
    obtain out rest where found: "found = (out, rest)" by (cases found)
    obtain consumed where c: "c # cs = consumed @ rest" "consumed \<noteq> []"
      "tags consumed < tags out"
      using wb [of prev "c # cs" out rest] Some found by auto
    have len: "length rest \<le> length cs"
    proof -
      have "length (c # cs) = length consumed + length rest" using c(1) by (metis length_append)
      moreover have "0 < length consumed" using c(2) by simp
      ultimately show ?thesis by (simp del: length_greater_0_conv)
    qed
    have ih: "tags rest \<le> tags (re_sub m (Some ((c # cs) ! (length cs - length rest))) rest)"
      using "2.IH"(2) [OF Some found [symmetric] len wb] by simp
    have "tags (c # cs) = tags consumed + tags rest"
      using c(1) by (metis tags_append)
    moreover have "re_sub m prev (c # cs) =
        out @ re_sub m (Some ((c # cs) ! (length cs - length rest))) rest"
      using Some found len by simp
    ultimately have "tags (c # cs) < tags (re_sub m prev (c # cs))"
      using c(3) ih by simp
    then show ?thesis by simp
  qed
qed

lemma find_close_split: "find_close d v = Some (g, r) \<Longrightarrow> v = g @ d @ r"
proof (induction v arbitrary: g)
  case Nil
  then show ?case by simp
next
  case (Cons c cs)
  show ?case
  proof (cases "startswith (c # cs) d")
    case True
    then have "g = []" "r = drop (length d) (c # cs)" using Cons.prems by simp_all
    moreover have "c # cs = d @ drop (length d) (c # cs)"
      using True unfolding startswith_def by (metis append_take_drop_id)
    ultimately show ?thesis by simp
  next
    case False
    then obtain g' where g': "find_close d cs = Some (g', r)" "g = c # g'"
      using Cons.prems by (auto split: if_splits)
    then show ?thesis using Cons.IH [of g'] by simp
  qed
qed

lemma bold_pattern_wraps:
  assumes "d \<noteq> []" and "CHR ''<'' \<notin> set d" and "bold_pattern d p u = Some (out, rest)"
  shows "\<exists>consumed. u = consumed @ rest \<and> consumed \<noteq> [] \<and> tags consumed < tags out"
proof -
  have sw: "startswith u d"
    using assms(3) unfolding bold_pattern_def by (cases "startswith u d") auto
  then obtain g where g: "find_close d (drop (length d) u) = Some (g, rest)"
    "out = ''<b>'' @ g @ ''</b>''"
    using assms(3) unfolding bold_pattern_def by (auto split: option.splits)
  have "u = d @ drop (length d) u"
    using sw unfolding startswith_def by (metis append_take_drop_id)
  then have u: "u = (d @ g @ d) @ rest"
    using find_close_split [OF g(1)] by simp
  have "tags (d @ g @ d) < tags out"
    using assms(2) by (simp add: g(2) tags_absent tags_Cons)
  then show ?thesis using u assms(1) by blast
qed

lemma dropWhile_hd: "dropWhile P xs \<noteq> [] \<Longrightarrow> \<not> P (hd (dropWhile P xs))"
  by (metis hd_dropWhile)

lemma italic_pattern_wraps:
  assumes "ch \<noteq> CHR ''<''" and "italic_pattern ch p u = Some (out, rest)"
  shows "\<exists>consumed. u = consumed @ rest \<and> consumed \<noteq> [] \<and> tags consumed < tags out"
proof -
  obtain rest0 where u: "u = ch # rest0"
    using assms(2) unfolding italic_pattern_def by (cases u) (auto split: if_splits)
  define run where "run = takeWhile (\<lambda>x. x \<noteq> ch) rest0"
  define after where "after = dropWhile (\<lambda>x. x \<noteq> ch) rest0"
  have m: "after \<noteq> []" "out = ''<i>'' @ run @ ''</i>''" "rest = tl after"
    using assms(2) unfolding italic_pattern_def u run_def after_def
    by (auto simp: Let_def split: if_splits)
  have "hd after = ch" using m(1) dropWhile_hd [of "\<lambda>x. x \<noteq> ch" rest0] by (simp add: after_def)
  then have a: "after = ch # rest" using m(1) m(3) by (cases after) auto
  have "rest0 = run @ after" by (simp add: run_def after_def)
  then have "u = (ch # run @ [ch]) @ rest" using u a by simp
  moreover have "tags (ch # run @ [ch]) < tags out"
    using assms(1) by (simp add: m(2) tags_Cons)
  ultimately show ?thesis by blast
qed

lemma code_pattern_wraps:
  assumes "code_pattern p u = Some (out, rest)"
  shows "\<exists>consumed. u = consumed @ rest \<and> consumed \<noteq> [] \<and> tags consumed < tags out"
proof -
  obtain rest0 where u: "u = CHR 0x60 # rest0"
    using assms unfolding code_pattern_def by (cases u) (auto split: if_splits)
  define run where "run = takeWhile (\<lambda>x. x \<noteq> CHR 0x60) rest0"
  define after where "after = dropWhile (\<lambda>x. x \<noteq> CHR 0x60) rest0"
  have m: "after \<noteq> []" "out = ''<code>'' @ run @ ''</code>''" "rest = tl after"
    using assms unfolding code_pattern_def u run_def after_def
    by (auto simp: Let_def split: if_splits)
  have "hd after = CHR 0x60"
    using m(1) dropWhile_hd [of "\<lambda>x. x \<noteq> CHR 0x60" rest0] by (simp add: after_def)
  then have a: "after = CHR 0x60 # rest" using m(1) m(3) by (cases after) auto
  have "rest0 = run @ after" by (simp add: run_def after_def)
  then have "u = (CHR 0x60 # run @ [CHR 0x60]) @ rest" using u a by simp
  moreover have "tags (CHR 0x60 # run @ [CHR 0x60]) < tags out"
    by (simp add: m(2) tags_Cons)
  ultimately show ?thesis by blast
qed

lemma link_pattern_wraps:
  assumes "link_pattern p u = Some (out, rest)"
  shows "\<exists>consumed. u = consumed @ rest \<and> consumed \<noteq> [] \<and> tags consumed < tags out"
proof -
  obtain rest0 where u: "u = CHR ''['' # rest0"
    using assms unfolding link_pattern_def by (cases u) (auto split: if_splits)
  define label where "label = takeWhile (\<lambda>x. x \<noteq> CHR '']'') rest0"
  define after where "after = dropWhile (\<lambda>x. x \<noteq> CHR '']'') rest0"
  define rest2 where "rest2 = drop 2 after"
  define url where "url = takeWhile (\<lambda>x. x \<noteq> CHR '')'') rest2"
  define after2 where "after2 = dropWhile (\<lambda>x. x \<noteq> CHR '')'') rest2"
  have m: "startswith after ''](''" "after2 \<noteq> []" "rest = tl after2"
    "out = ''<link href='' @ [dquote] @ url @ [dquote] @ ''>'' @ label @ ''</link>''"
    using assms unfolding link_pattern_def u label_def after_def rest2_def url_def after2_def
    by (auto simp: Let_def split: if_splits)
  have "after = '']('' @ rest2"
    using m(1) unfolding startswith_def rest2_def by (metis append_take_drop_id length_Cons list.size(3) numeral_2_eq_2)
  moreover have "hd after2 = CHR '')''"
    using m(2) dropWhile_hd [of "\<lambda>x. x \<noteq> CHR '')''" rest2] by (simp add: after2_def)
  then have "after2 = CHR '')'' # rest" using m(2) m(3) by (cases after2) auto
  moreover have "rest0 = label @ after" by (simp add: label_def after_def)
  moreover have "rest2 = url @ after2" by (simp add: url_def after2_def)
  ultimately have "u = (CHR ''['' # label @ '']('' @ url @ '')'') @ rest"
    using u by simp
  moreover have "tags (CHR ''['' # label @ '']('' @ url @ '')'') < tags out"
    by (simp add: m(4) tags_Cons dquote_def)
  ultimately show ?thesis by blast
qed

lemma process_markdown_text_fixed_point:
  "process_markdown_text t = t \<longleftrightarrow> settled t"
proof -
  define t1 where "t1 = re_sub (bold_pattern ''****'') None t"
  define t2 where "t2 = re_sub (bold_pattern ''**'') None t1"
  define t3 where "t3 = re_sub (bold_pattern ''__'') None t2"
  define t4 where "t4 = re_sub (italic_pattern (CHR ''*'')) None t3"
  define t5 where "t5 = re_sub (italic_pattern (CHR ''_'')) None t4"
  define t6 where "t6 = re_sub code_pattern None t5"
  define t7 where "t7 = re_sub link_pattern None t6"
  have f: "process_markdown_text t = t7"
    by (cases "t = []")
       (simp_all add: process_markdown_text_def process_bold_text_def process_italic_text_def
          process_code_text_def Let_def t1_def t2_def t3_def t4_def t5_def t6_def t7_def)
  have s1: "tags t \<le> tags t1 \<and> (matches_in (bold_pattern ''****'') None t \<longrightarrow> tags t < tags t1)"
    unfolding t1_def by (rule re_sub_tags) (rule bold_pattern_wraps, simp_all)
  have s2: "tags t1 \<le> tags t2 \<and> (matches_in (bold_pattern ''**'') None t1 \<longrightarrow> tags t1 < tags t2)"
    unfolding t2_def by (rule re_sub_tags) (rule bold_pattern_wraps, simp_all)
  have s3: "tags t2 \<le> tags t3 \<and> (matches_in (bold_pattern ''__'') None t2 \<longrightarrow> tags t2 < tags t3)"
    unfolding t3_def by (rule re_sub_tags) (rule bold_pattern_wraps, simp_all)
  have s4: "tags t3 \<le> tags t4 \<and>
      (matches_in (italic_pattern (CHR ''*'')) None t3 \<longrightarrow> tags t3 < tags t4)"
    unfolding t4_def by (rule re_sub_tags) (rule italic_pattern_wraps, simp_all)
  have s5: "tags t4 \<le> tags t5 \<and>
      (matches_in (italic_pattern (CHR ''_'')) None t4 \<longrightarrow> tags t4 < tags t5)"
    unfolding t5_def by (rule re_sub_tags) (rule italic_pattern_wraps, simp_all)
  have s6: "tags t5 \<le> tags t6 \<and> (matches_in code_pattern None t5 \<longrightarrow> tags t5 < tags t6)"
    unfolding t6_def by (rule re_sub_tags) (rule code_pattern_wraps)
  have s7: "tags t6 \<le> tags t7 \<and> (matches_in link_pattern None t6 \<longrightarrow> tags t6 < tags t7)"
    unfolding t7_def by (rule re_sub_tags) (rule link_pattern_wraps)
  show ?thesis
  proof
    assume "process_markdown_text t = t"
    then have e: "tags t7 = tags t" using f by simp
    have n1: "\<not> matches_in (bold_pattern ''****'') None t"
      using s1 s2 s3 s4 s5 s6 s7 e by linarith
    then have e1: "t1 = t" unfolding t1_def by (rule re_sub_unmatched)
    have n2: "\<not> matches_in (bold_pattern ''**'') None t"
      using s2 s3 s4 s5 s6 s7 e unfolding e1 by linarith
    then have e2: "t2 = t" unfolding t2_def e1 by (rule re_sub_unmatched)
    have n3: "\<not> matches_in (bold_pattern ''__'') None t"
      using s3 s4 s5 s6 s7 e unfolding e2 by linarith
    then have e3: "t3 = t" unfolding t3_def e2 by (rule re_sub_unmatched)
    have n4: "\<not> matches_in (italic_pattern (CHR ''*'')) None t"
      using s4 s5 s6 s7 e unfolding e3 by linarith
    then have e4: "t4 = t" unfolding t4_def e3 by (rule re_sub_unmatched)
    have n5: "\<not> matches_in (italic_pattern (CHR ''_'')) None t"
      using s5 s6 s7 e unfolding e4 by linarith
    then have e5: "t5 = t" unfolding t5_def e4 by (rule re_sub_unmatched)
    have n6: "\<not> matches_in code_pattern None t"
      using s6 s7 e unfolding e5 by linarith
    then have e6: "t6 = t" unfolding t6_def e5 by (rule re_sub_unmatched)
    have n7: "\<not> matches_in link_pattern None t"
      using s7 e unfolding e6 by linarith
    show "settled t"
      using n1 n2 n3 n4 n5 n6 n7 by (simp add: settled_def formatter_patterns_def)
  next
    assume "settled t"
    then have n: "\<not> matches_in (bold_pattern ''****'') None t"
      "\<not> matches_in (bold_pattern ''**'') None t"
      "\<not> matches_in (bold_pattern ''__'') None t"
      "\<not> matches_in (italic_pattern (CHR ''*'')) None t"
      "\<not> matches_in (italic_pattern (CHR ''_'')) None t"
      "\<not> matches_in code_pattern None t"
      "\<not> matches_in link_pattern None t"
      by (simp_all add: settled_def formatter_patterns_def)
    have e1: "t1 = t" unfolding t1_def using n(1) by (rule re_sub_unmatched)
    have e2: "t2 = t" unfolding t2_def e1 using n(2) by (rule re_sub_unmatched)
    have e3: "t3 = t" unfolding t3_def e2 using n(3) by (rule re_sub_unmatched)
    have e4: "t4 = t" unfolding t4_def e3 using n(4) by (rule re_sub_unmatched)
    have e5: "t5 = t" unfolding t5_def e4 using n(5) by (rule re_sub_unmatched)
    have e6: "t6 = t" unfolding t6_def e5 using n(6) by (rule re_sub_unmatched)
    have e7: "t7 = t" unfolding t7_def e6 using n(7) by (rule re_sub_unmatched)
    show "process_markdown_text t = t" using f e7 by simp
  qed
qed

section \<open>Facts about the tokenizer\<close>

text \<open>A line of \<open>n\<close> markers, a space and a text without a line break and without a
  backslash is one header, of level \<open>n\<close>.\<close>

lemma parse_header_line:
  assumes n: "0 < n" and nl: "newline \<notin> set X" and bs: "backslash \<notin> set X"
  shows "parse_markdown_enhanced (replicate n (CHR ''#'') @ '' '' @ X) =
           [HeaderE (strip X) n (detect_section_type (strip X))]"
proof -
  define src where "src = replicate n (CHR ''#'') @ '' '' @ X"
  define R where "R = rstrip ('' '' @ X)"
  have ne: "src \<noteq> []" using n by (simp add: src_def)
  have "backslash \<notin> set src" using bs by (auto simp: src_def backslash_def)
  then have r1: "replace [backslash, CHR ''n''] [newline] src = src"
    and r2: "replace [backslash, CHR ''t''] [tab] src = src"
    by (simp_all add: replace_absent)
  have "newline \<notin> set src" using nl by (auto simp: src_def newline_def)
  then have sl: "split_lines src = [src]" by (rule split_lines_single)
  have hs: "\<not> isspace (CHR ''#'')" by (simp add: isspace_def)
  have line: "strip src = replicate n (CHR ''#'') @ R"
  proof -
    have "rstrip src = replicate n (CHR ''#'') @ R"
      unfolding src_def R_def using n hs by (intro rstrip_append) auto
    moreover have "lstrip (replicate n (CHR ''#'') @ R) = replicate n (CHR ''#'') @ R"
      using n hs by (intro lstrip_nonspace) (cases n, auto)
    ultimately show ?thesis by (simp add: strip_def)
  qed
  have Rhd: "R = [] \<or> hd R = CHR '' ''"
    using rstrip_hd [of "'' '' @ X"] by (auto simp: R_def)
  then have tw: "takeWhile (\<lambda>char. char = CHR ''#'') R = []"
    by (cases R) auto
  have level: "length (takeWhile (\<lambda>char. char = CHR ''#'') (strip src)) = n"
    by (simp add: line takeWhile_append tw)
  have sw: "startswith (strip src) ''#''"
    using n by (cases n) (simp_all add: line startswith_def)
  have nonempty: "strip src \<noteq> []" using n by (simp add: line)
  have "strip R = strip ('' '' @ X)" unfolding R_def by (rule strip_rstrip)
  also have "\<dots> = strip X" by (simp add: strip_space_Cons isspace_def)
  finally have htext: "strip (drop n (strip src)) = strip X" by (simp add: line)
  have pl: "parse_line ([], []) src =
      ([HeaderE (strip X) n (detect_section_type (strip X))], [])"
    unfolding parse_line_def
    by (simp add: Let_def sw nonempty level htext flush_paragraph_def)
  show ?thesis
    unfolding parse_markdown_enhanced_def src_def [symmetric]
    by (simp add: ne r1 r2 sl pl Let_def flush_paragraph_def)
qed

lemma toc_example_elements: "parse_markdown_enhanced toc_example =
  replicate 10 (HeaderE ''a'' 1 General) @ [HeaderE ''b'' 2 General]"
  by (simp add: toc_example_def parse_markdown_enhanced_def parse_line_def flush_paragraph_def
      Let_def str_eval detect_a detect_b numeral_eq_Suc)

section \<open>Facts about constructor calls and the layout loop\<close>

lemma then_do_Inr [simp]: "then_do (Inr x) f = f x"
  by (simp add: then_do_def)

lemma then_do_Inl [simp]: "then_do (Inl e) f = Inl e"
  by (simp add: then_do_def)

lemma then_do_error:
  "then_do r f = Inl e \<Longrightarrow> r = Inl e \<or> (\<exists>x. r = Inr x \<and> f x = Inl e)"
  by (cases r) auto

lemma construct_error: "construct lib b = Inl e \<Longrightarrow> e = ParagraphError"
  by (auto simp: construct_def split: if_splits)

lemma try_fold_checked:
  assumes "\<And>s x. f s x = (if P x then Inr (g s x) else Inl err)"
  shows "try_fold f s xs = (if list_all P xs then Inr (foldl g s xs) else Inl err)"
  by (induction xs arbitrary: s) (simp_all add: assms)

lemma try_fold_error:
  assumes "\<And>s x e. f s x = Inl e \<Longrightarrow> e = err"
  shows "try_fold f s xs = Inl e \<Longrightarrow> e = err"
proof (induction xs arbitrary: s)
  case Nil
  then show ?case by simp
next
  case (Cons x xs)
  then show ?case using assms by (cases "f s x") auto
qed

lemma paragraph_style_table: "paragraph_style section_type = category_style section_type"
  by (cases section_type) (simp_all add: paragraph_style_def)

lemma header_style_table: "header_style header_level = level_style header_level"
  by (induction header_level rule: level_style.induct) (simp_all add: header_style_def)

lemma layout_step_checked:
  "layout_step lib (story, cs) e =
     (if accepted lib e then Inr (layout_step_ok (story, cs) e) else Inl ParagraphError)"
  by (cases e)
     (auto simp: accepted_def construct_def paragraph_style_table header_style_table Let_def
        constructs_def)

lemma layout_step_checked':
  "layout_step lib s e =
     (if accepted lib e then Inr (layout_step_ok s e) else Inl ParagraphError)"
  by (cases s) (simp add: layout_step_checked)

lemma layout_loop_checked:
  "try_fold (layout_step lib) s els =
     (if list_all (accepted lib) els then Inr (foldl layout_step_ok s els)
      else Inl ParagraphError)"
  by (rule try_fold_checked) (rule layout_step_checked')

lemma layout_elements_checked:
  "layout_elements lib story els =
     (if list_all (accepted lib) els then Inr (layout_elements_ok story els)
      else Inl ParagraphError)"
  by (simp add: layout_elements_def layout_elements_ok_def layout_loop_checked
      keep_together_def split: prod.split)

section \<open>Facts about the layout when every call returns\<close>

lemma layout_step_ok_prefix:
  "layout_step_ok (story, cs) e =
     (story @ fst (layout_step_ok ([], cs) e), snd (layout_step_ok ([], cs) e))"
  by (cases e) simp_all

lemma layout_loop_prefix:
  "foldl layout_step_ok (story, cs) els =
     (story @ fst (foldl layout_step_ok ([], cs) els), snd (foldl layout_step_ok ([], cs) els))"
proof (induction els arbitrary: story cs)
  case Nil
  show ?case by simp
next
  case (Cons e els)
  obtain d cs' where step: "layout_step_ok ([], cs) e = (d, cs')"
    by (cases "layout_step_ok ([], cs) e")
  have 1: "layout_step_ok (story, cs) e = (story @ d, cs')"
    using layout_step_ok_prefix [of story cs e] step by simp
  show ?case
    using Cons.IH [of "story @ d" cs'] Cons.IH [of d cs'] by (simp add: 1 step)
qed

lemma layout_elements_prefix:
  "layout_elements_ok story els = story @ layout_elements_ok [] els"
  unfolding layout_elements_ok_def
  by (subst layout_loop_prefix) (simp add: split_beta)

lemma layout_loop_no_header:
  "\<not> list_ex is_header pre \<Longrightarrow>
   foldl layout_step_ok (story, cs) pre =
     (story @ concat (map direct_blocks pre), cs @ concat (map buffered_blocks pre))"
proof (induction pre arbitrary: story cs)
  case Nil
  show ?case by simp
next
  case (Cons e pre)
  then show ?case by (cases e) simp_all
qed

lemma layout_no_header:
  assumes "\<not> list_ex is_header pre"
  shows "layout_elements_ok story pre =
           story @ concat (map direct_blocks pre)
                 @ keep_together (concat (map buffered_blocks pre))"
  unfolding layout_elements_ok_def
  by (simp add: layout_loop_no_header [OF assms])

lemma layout_at_header:
  assumes "\<not> list_ex is_header pre"
  shows "layout_elements_ok story (pre @ HeaderE t l c # post) =
           layout_elements_ok
             (story @ concat (map direct_blocks pre) @ [Paragraph t (header_style l)]
                    @ keep_together (concat (map buffered_blocks pre))) post"
proof (cases "concat (map buffered_blocks pre) = []")
  case True
  then show ?thesis
    unfolding layout_elements_ok_def keep_together_def
    by (simp add: layout_loop_no_header [OF assms] header_style_table
        del: concat_eq_Nil_conv)
next
  case False
  then show ?thesis
    unfolding layout_elements_ok_def keep_together_def
    by (simp add: layout_loop_no_header [OF assms] header_style_table
        del: concat_eq_Nil_conv)
qed

lemma ungrouped_append: "ungrouped (xs @ ys) = ungrouped xs @ ungrouped ys"
  by (induction xs rule: ungrouped.induct) simp_all

lemma group_members_append: "group_members (xs @ ys) = group_members xs @ group_members ys"
  by (induction xs rule: group_members.induct) simp_all

lemma direct_blocks_ungrouped:
  "ungrouped (direct_blocks e) = direct_blocks e \<and> group_members (direct_blocks e) = []"
  by (cases e) simp_all

lemma layout_step_ungrouped:
  "ungrouped (fst (layout_step_ok (story, cs) e)) = ungrouped story @ direct_blocks e"
  by (cases e) (simp_all add: ungrouped_append direct_blocks_ungrouped)

lemma layout_step_grouped:
  "group_members (fst (layout_step_ok (story, cs) e)) @ snd (layout_step_ok (story, cs) e) =
     group_members story @ cs @ buffered_blocks e"
  by (cases e) (simp_all add: group_members_append direct_blocks_ungrouped)

lemma layout_loop_ungrouped:
  "ungrouped (fst (foldl layout_step_ok (story, cs) els)) =
     ungrouped story @ concat (map direct_blocks els)"
proof (induction els arbitrary: story cs)
  case Nil
  show ?case by simp
next
  case (Cons e els)
  obtain story' cs' where step: "layout_step_ok (story, cs) e = (story', cs')"
    by (cases "layout_step_ok (story, cs) e")
  have "ungrouped story' = ungrouped story @ direct_blocks e"
    using layout_step_ungrouped [of story cs e] step by simp
  then show ?case using Cons.IH [of story' cs'] by (simp add: step)
qed

lemma layout_loop_grouped:
  "group_members (fst (foldl layout_step_ok (story, cs) els))
     @ snd (foldl layout_step_ok (story, cs) els) =
   group_members story @ cs @ concat (map buffered_blocks els)"
proof (induction els arbitrary: story cs)
  case Nil
  show ?case by simp
next
  case (Cons e els)
  obtain story' cs' where step: "layout_step_ok (story, cs) e = (story', cs')"
    by (cases "layout_step_ok (story, cs) e")
  have "group_members story' @ cs' = group_members story @ cs @ buffered_blocks e"
    using layout_step_grouped [of story cs e] step by simp
  then show ?case using Cons.IH [of story' cs'] by (simp add: step)
qed

lemma layout_ok_once_and_twice:
  "ungrouped (layout_elements_ok [] els) = concat (map direct_blocks els) \<and>
   group_members (layout_elements_ok [] els) = concat (map buffered_blocks els)"
proof -
  obtain story cs where loop: "foldl layout_step_ok ([], []) els = (story, cs)"
    by (cases "foldl layout_step_ok ([], []) els")
  have u: "ungrouped story = concat (map direct_blocks els)"
    using layout_loop_ungrouped [of "[]" "[]" els] loop by simp
  have g: "group_members story @ cs = concat (map buffered_blocks els)"
    using layout_loop_grouped [of "[]" "[]" els] loop by simp
  show ?thesis
    unfolding layout_elements_ok_def loop keep_together_def
    using u g by (cases "cs = []") (simp_all add: ungrouped_append group_members_append)
qed

section \<open>Facts about the table of contents and the report\<close>

lemma known_faces:
  "known_face ''Helvetica''" "known_face ''Helvetica-Bold''" "\<not> known_face ''Helvetica-Italic''"
  by code_simp+

lemma known_face_font: "known_face (font_name st) = (st \<noteq> enhanced_quote_style)"
  by (cases st) (simp_all add: known_faces)

lemma constructs_Paragraph:
  "constructs lib (Paragraph t st) = (st \<noteq> enhanced_quote_style \<and> markup_ok lib t)"
  by (simp add: constructs_def known_face_font)

lemma constructs_other [simp]:
  "constructs lib (Spacer w h)" "constructs lib PageBreak" "constructs lib (KeepTogether bs)"
  by (simp_all add: constructs_def)

lemma construct_Paragraph:
  "construct lib (Paragraph t st) =
     (if st \<noteq> enhanced_quote_style \<and> markup_ok lib t then Inr (Paragraph t st)
      else Inl ParagraphError)"
  by (simp add: construct_def constructs_Paragraph)

lemma category_style_not_quote: "category_style c \<noteq> enhanced_quote_style"
  by (cases c) simp_all

lemma level_style_not_quote: "level_style l \<noteq> enhanced_quote_style"
  by (induction l rule: level_style.induct) simp_all

lemma quote_not_accepted: "is_quote e \<Longrightarrow> \<not> accepted lib e"
  by (cases e) (simp_all add: accepted_def constructs_Paragraph)

lemma quotes_not_accepted: "list_ex is_quote els \<Longrightarrow> \<not> list_all (accepted lib) els"
  by (induction els) (auto simp: quote_not_accepted)

lemma accepted_rejecting: "accepted rejecting_lib e = (\<not> is_quote e)"
  by (cases e)
     (simp_all add: accepted_def constructs_Paragraph rejecting_lib_def category_style_not_quote
        level_style_not_quote)

lemma layout_elements_error: "layout_elements lib story els = Inl e \<Longrightarrow> e = ParagraphError"
  by (simp add: layout_elements_checked split: if_splits)

lemma layout_elements_from_empty:
  "layout_elements lib story els =
     (case layout_elements lib [] els of
        Inl e \<Rightarrow> Inl e
      | Inr content \<Rightarrow> Inr (story @ content))"
  using layout_elements_prefix [of story els]
  by (simp add: layout_elements_checked)

lemma toc_loop_checked:
  "try_fold (toc_step lib) toc_elements elements =
     (if list_all (constructs lib)
           (map (\<lambda>(header_text, header_level). toc_entry header_text header_level)
                (header_entries elements))
      then Inr (toc_elements
                @ map (\<lambda>(header_text, header_level). toc_entry header_text header_level)
                      (header_entries elements))
      else Inl ParagraphError)"
proof (induction elements arbitrary: toc_elements)
  case Nil
  show ?case by simp
next
  case (Cons e elements)
  then show ?case by (cases e) (simp_all add: construct_def)
qed

lemma create_table_of_contents_checked:
  "create_table_of_contents lib elements =
     (if list_all (constructs lib) (toc_blocks elements) then Inr (toc_blocks elements)
      else Inl ParagraphError)"
  by (simp add: create_table_of_contents_def toc_loop_checked toc_blocks_def construct_def)

lemma header_entries_count:
  "length (header_entries elements) = length (filter is_header elements)"
  by (induction elements rule: header_entries.induct) simp_all

lemma add_structured_checked:
  "add_structured lib story summary =
     (if list_all (constructs lib)
           (if 10 < length (parse_markdown_enhanced summary)
            then toc_blocks (parse_markdown_enhanced summary) else [])
      then (case layout_elements lib [] (parse_markdown_enhanced summary) of
              Inl e \<Rightarrow> Inl e
            | Inr content \<Rightarrow>
                Inr (story
                     @ (if 10 < length (parse_markdown_enhanced summary)
                        then toc_blocks (parse_markdown_enhanced summary) else [])
                     @ content))
      else Inl ParagraphError)"
  unfolding add_structured_def Let_def
  by (subst layout_elements_from_empty)
     (simp add: create_table_of_contents_checked
        layout_elements_from_empty [of lib "story @ toc_blocks (parse_markdown_enhanced summary)"]
        split: sum.split)

lemma add_plain_checked:
  "add_plain lib story summary =
     (let shown = (if 600 < length summary then take 600 summary @ ''...'' else summary)
      in if markup_ok lib shown then Inr (story @ [Paragraph shown summary_style])
         else Inl ParagraphError)"
  by (simp add: add_plain_def construct_Paragraph Let_def)

lemma add_article_checked:
  "add_article lib story article =
     (if list_all (constructs lib)
           [Paragraph (get_field article ''title'' ''No Title'') title_style,
            Paragraph (''Published: '' @ format_date lib (get_field article ''date'' ''No Date''))
              date_style,
            Paragraph (''Link: '' @ get_field article ''link'' ''No Link Available'')
              link_style]
      then (case add_summary lib
                  (story @ [Paragraph (get_field article ''title'' ''No Title'') title_style,
                     Paragraph (''Published: ''
                                @ format_date lib (get_field article ''date'' ''No Date''))
                       date_style,
                     Paragraph (''Link: '' @ get_field article ''link'' ''No Link Available'')
                       link_style])
                  (get_field article ''summary'' ''No summary available'') of
              Inl e \<Rightarrow> Inl e
            | Inr story \<Rightarrow> Inr (story @ [Spacer 1 15]))
      else Inl ParagraphError)"
  by (simp add: add_article_def Let_def construct_def then_do_def split: sum.split)

lemma add_article_structured:
  assumes "summary = get_field article ''summary'' ''No summary available''"
    and "is_structured summary"
    and "elements = parse_markdown_enhanced summary"
  shows "add_article lib story article =
           (if list_all (constructs lib)
                 ([Paragraph (get_field article ''title'' ''No Title'') title_style,
                   Paragraph (''Published: ''
                              @ format_date lib (get_field article ''date'' ''No Date''))
                     date_style,
                   Paragraph (''Link: '' @ get_field article ''link'' ''No Link Available'')
                     link_style]
                  @ (if 10 < length elements then toc_blocks elements else []))
            then (case layout_elements lib [] elements of
                    Inl e \<Rightarrow> Inl e
                  | Inr content \<Rightarrow>
                      Inr (story
                           @ [Paragraph (get_field article ''title'' ''No Title'') title_style,
                              Paragraph (''Published: ''
                                         @ format_date lib (get_field article ''date'' ''No Date''))
                                date_style,
                              Paragraph (''Link: ''
                                         @ get_field article ''link'' ''No Link Available'')
                                link_style]
                           @ (if 10 < length elements then toc_blocks elements else [])
                           @ content
                           @ [Spacer 1 15]))
            else Inl ParagraphError)"
  unfolding add_article_checked assms(1) [symmetric]
  using assms(2)
  by (simp add: add_summary_def add_structured_checked assms(3) [symmetric] split: sum.split)

lemma add_structured_error: "add_structured lib story summary = Inl e \<Longrightarrow> e = ParagraphError"
  using layout_elements_error [of lib "[]" "parse_markdown_enhanced summary" e]
  by (simp add: add_structured_checked split: if_splits sum.splits)

lemma add_plain_error: "add_plain lib story summary = Inl e \<Longrightarrow> e = ParagraphError"
  by (simp add: add_plain_checked Let_def split: if_splits)

lemma add_summary_error: "add_summary lib story summary = Inl e \<Longrightarrow> e = ParagraphError"
  using add_structured_error [of lib story summary e] add_plain_error [of lib story summary e]
  by (simp add: add_summary_def split: if_splits)

lemma add_article_error: "add_article lib story article = Inl e \<Longrightarrow> e = ParagraphError"
  by (auto simp: add_article_checked split: if_splits sum.splits dest: add_summary_error)

lemma add_articles_error:
  "try_fold (add_article lib) story source_articles = Inl e \<Longrightarrow> e = ParagraphError"
  by (rule try_fold_error [of "add_article lib"]) (rule add_article_error)

lemma add_source_error:
  "add_source lib articles_by_source story entry = Inl e \<Longrightarrow> e = ParagraphError"
  by (cases entry)
     (auto simp: add_source_def Let_def
        dest!: then_do_error dest: construct_error add_articles_error split: if_splits)

lemma add_sources_error:
  "try_fold (add_source lib articles_by_source) story groups = Inl e \<Longrightarrow> e = ParagraphError"
  by (rule try_fold_error [of "add_source lib articles_by_source"]) (rule add_source_error)

section \<open>Facts about the examples and the report as a whole\<close>

lemma marker_free_a: "marker_free (replicate n (CHR ''a''))"
  by (simp add: marker_free_def not_contains backslash_def)

lemma toc_example_structured: "is_structured toc_example"
  by (simp add: toc_example_def is_structured_def str_eval)

lemma toc_article_summary:
  "get_field toc_article ''summary'' ''No summary available'' = toc_example"
  by (simp add: get_field_def toc_article_def)

lemma toc_article_head:
  "get_field toc_article ''title'' ''No Title'' = ''No Title'' \<and>
   format_date rejecting_lib (get_field toc_article ''date'' ''No Date'') = ''No Date'' \<and>
   get_field toc_article ''link'' ''No Link Available'' = ''No Link Available''"
  by (simp add: get_field_def toc_article_def format_date_def date_formats_def
      rejecting_lib_def startswith_def)

lemma group_by_source_error:
  "group_by_source groups articles = Inl e \<Longrightarrow> e = KeyError ''source''"
  by (induction articles arbitrary: groups) (auto split: option.splits)

lemma try_formats_all_fail:
  "\<forall>fmt\<in>set fmts. strptime lib s fmt = None \<Longrightarrow> try_formats lib s fmts = None"
  by (induction fmts) simp_all

lemma gmt_example_stripped: "strip (replace ''GMT'' [] ''Fri, 22 Aug 2025 GMT'') = ''Fri, 22 Aug 2025''"
  by (simp add: startswith_def strip_def lstrip_def rstrip_def isspace_def)

lemma build_story_error:
  "build_story lib articles = Inl e \<Longrightarrow> e = ParagraphError \<or> e = KeyError ''source''"
  unfolding build_story_def
  by (auto dest!: then_do_error dest: construct_error group_by_source_error add_sources_error)

lemma markup_ok_rejecting: "markup_ok rejecting_lib t"
  by (simp add: rejecting_lib_def)

lemma constructs_rejecting:
  "constructs rejecting_lib (Paragraph t st) = (st \<noteq> enhanced_quote_style)"
  by (simp add: constructs_Paragraph markup_ok_rejecting)

lemma constructs_toc_entry_rejecting: "constructs rejecting_lib (toc_entry t l)"
  by (simp add: toc_entry_def Let_def constructs_rejecting)

lemma layout_elements_rejecting:
  "layout_elements rejecting_lib story els =
     (if list_ex is_quote els then Inl ParagraphError else Inr (layout_elements_ok story els))"
  by (simp add: layout_elements_checked accepted_rejecting list_ex_iff list_all_iff)

lemma quote_example_elements:
  "parse_markdown_enhanced quote_example =
     [HeaderE ''a'' 1 General, HeaderE ''a'' 1 General, HeaderE ''a'' 1 General, QuoteE ''q'']"
  by (simp add: quote_example_def parse_markdown_enhanced_def parse_line_def flush_paragraph_def
      parse_rest_def match_bullet_def match_numbered_def
      Let_def str_eval fmt_eval detect_a)

lemma quote_example_structured: "is_structured quote_example"
  by (simp add: quote_example_def is_structured_def str_eval)

lemma quote_article_summary:
  "get_field quote_article ''summary'' ''No summary available'' = quote_example"
  by (simp add: get_field_def quote_article_def)

lemma quote_article_raises: "add_article lib story quote_article = Inl ParagraphError"
  using add_article_structured [OF quote_article_summary [symmetric] quote_example_structured refl,
      of lib story]
  by (simp add: quote_example_elements layout_elements_checked quote_not_accepted)

lemma quote_article_group:
  "group_by_source [] [quote_article] = Inr [(''news'', [quote_article])]"
  by (simp add: quote_article_def)

lemma quote_source_raises:
  "add_source lib groups story (''news'', [quote_article]) = Inl ParagraphError"
  by (simp add: add_source_def Let_def quote_article_raises construct_def)

lemma quote_report_raises: "build_story lib [quote_article] = Inl ParagraphError"
proof -
  have "then_do (group_by_source [] [quote_article])
          (\<lambda>articles_by_source.
             try_fold (add_source lib articles_by_source) story articles_by_source) =
        Inl ParagraphError" for story
    by (simp only: quote_article_group then_do_Inr try_fold.simps quote_source_raises
        then_do_Inl)
  then show ?thesis
    unfolding build_story_def by (simp add: construct_def del: group_by_source.simps)
qed

section \<open>Claim C1: section grouping around a header\<close>

text \<open>
  Claim C1, as amended. Let \<open>pre\<close> be elements without a header. When the header that
  follows them is reached, the header block is appended first, and the buffered copies
  of the paragraphs of \<open>pre\<close> are emitted as one keep-together group right after the
  header block (no group when the buffer is empty); the layout then goes on with the
  elements after the header from an empty buffer. When no header follows, the buffered
  section is emitted as a keep-together group after the last element. This is the
  result whenever the constructor calls for \<open>pre\<close> and for the header return; when one
  of them raises, the layout raises that error.
\<close>

theorem header_then_section_group:
  assumes "\<not> list_ex is_header pre"
  shows "layout_elements lib story (pre @ HeaderE t l c # post) =
           (if list_all (accepted lib) pre \<and> constructs lib (Paragraph t (header_style l))
            then layout_elements lib
                   (story @ concat (map direct_blocks pre) @ [Paragraph t (header_style l)]
                          @ keep_together (concat (map buffered_blocks pre))) post
            else Inl ParagraphError) \<and>
         layout_elements lib story pre =
           (if list_all (accepted lib) pre
            then Inr (story @ concat (map direct_blocks pre)
                            @ keep_together (concat (map buffered_blocks pre)))
            else Inl ParagraphError)"
  using layout_at_header [OF assms] layout_no_header [OF assms]
  by (simp add: layout_elements_checked accepted_def header_style_table)

theorem header_then_section_group_witness:
  "\<not> list_ex is_header [ParagraphE ''a'' General, ListItemE ''x'' 0] \<and>
   layout_elements rejecting_lib [] ([ParagraphE ''a'' General, ListItemE ''x'' 0]
                         @ HeaderE ''h'' 2 General # [ParagraphE ''b'' Timeline]) =
     layout_elements rejecting_lib
       ([Paragraph ''a'' long_content_style,
         Paragraph (bullet_glyph @ '' x'') enhanced_bullet_list_style,
         Paragraph ''h'' proposal_h2_style,
         KeepTogether [Paragraph ''a'' long_content_style]]) [ParagraphE ''b'' Timeline] \<and>
   layout_elements rejecting_lib [] [ParagraphE ''a'' General, ListItemE ''x'' 0] =
     Inr [Paragraph ''a'' long_content_style,
          Paragraph (bullet_glyph @ '' x'') enhanced_bullet_list_style,
          KeepTogether [Paragraph ''a'' long_content_style]]"
proof -
  have h: "\<not> list_ex is_header [ParagraphE ''a'' General, ListItemE ''x'' 0]"
    by simp
  show ?thesis
    using h header_then_section_group [OF h, of rejecting_lib "[]" "''h''" 2 General
        "[ParagraphE ''b'' Timeline]"]
    by (simp add: keep_together_def accepted_rejecting constructs_rejecting header_style_def)
qed

text \<open>The order the claim states, the group before the header block, is not the order
  of the story: after a paragraph and a header, the header block comes second and the
  group third.\<close>

theorem group_before_header_counterexample:
  "layout_elements rejecting_lib [] [ParagraphE ''a'' General, HeaderE ''h'' 2 General] =
     Inr [Paragraph ''a'' long_content_style,
          Paragraph ''h'' proposal_h2_style,
          KeepTogether [Paragraph ''a'' long_content_style]] \<and>
   layout_elements rejecting_lib [] [ParagraphE ''a'' General, HeaderE ''h'' 2 General] \<noteq>
     Inr [Paragraph ''a'' long_content_style,
          KeepTogether [Paragraph ''a'' long_content_style],
          Paragraph ''h'' proposal_h2_style]"
  by (simp add: layout_elements_def construct_def constructs_rejecting paragraph_style_def
      header_style_def)

section \<open>Claim C2: the table of contents\<close>

text \<open>
  Claim C2, as amended. For an article whose summary takes the structured path, the
  article's blocks are its title, date and link paragraphs, then, when the summary has
  more than 10 elements, the table of contents (a heading, a spacer, one entry per
  header element in order, a spacer and a forced page break), then the content blocks,
  then a spacer. So the table of contents stands immediately before the article's
  first content block and ends with the page break; it follows the article's link
  paragraph and not a title. With 10 elements or fewer there is no table of contents.
  An entry is indented by four non-breaking spaces per level above the first. This is
  the result whenever the constructor calls for these blocks return; when one of them
  raises, or the layout of the content does, the article raises that error.
\<close>

theorem table_of_contents_placement:
  assumes "summary = get_field article ''summary'' ''No summary available''"
    and "is_structured summary"
    and "elements = parse_markdown_enhanced summary"
  shows "add_article lib story article =
           (if list_all (constructs lib)
                 ([Paragraph (get_field article ''title'' ''No Title'') title_style,
                   Paragraph (''Published: ''
                              @ format_date lib (get_field article ''date'' ''No Date''))
                     date_style,
                   Paragraph (''Link: '' @ get_field article ''link'' ''No Link Available'')
                     link_style]
                  @ (if 10 < length elements
                     then [Paragraph (toc_glyph @ '' Table of Contents'') report_title_style,
                           Spacer 1 15]
                          @ map (\<lambda>(header_text, header_level).
                                   toc_entry header_text header_level)
                                (header_entries elements)
                          @ [Spacer 1 20, PageBreak]
                     else []))
            then (case layout_elements lib [] elements of
                    Inl e \<Rightarrow> Inl e
                  | Inr content \<Rightarrow>
                      Inr (story
                           @ [Paragraph (get_field article ''title'' ''No Title'') title_style,
                              Paragraph (''Published: ''
                                         @ format_date lib (get_field article ''date'' ''No Date''))
                                date_style,
                              Paragraph (''Link: ''
                                         @ get_field article ''link'' ''No Link Available'')
                                link_style]
                           @ (if 10 < length elements
                              then [Paragraph (toc_glyph @ '' Table of Contents'')
                                      report_title_style,
                                    Spacer 1 15]
                                   @ map (\<lambda>(header_text, header_level).
                                            toc_entry header_text header_level)
                                         (header_entries elements)
                                   @ [Spacer 1 20, PageBreak]
                              else [])
                           @ content
                           @ [Spacer 1 15]))
            else Inl ParagraphError) \<and>
         length (header_entries elements) = length (filter is_header elements) \<and>
         (\<exists>st. toc_entry header_text header_level =
            Paragraph (concat (replicate (4 * (header_level - 1)) ''&nbsp;'')
                       @ bullet_glyph @ '' '' @ header_text) st)"
proof -
  have "\<exists>st. toc_entry header_text header_level =
            Paragraph (concat (replicate (4 * (header_level - 1)) ''&nbsp;'')
                       @ bullet_glyph @ '' '' @ header_text) st"
    by (simp add: toc_entry_def Let_def mult.commute)
  then show ?thesis
    using add_article_structured [OF assms, of lib story] header_entries_count [of elements]
    unfolding toc_blocks_def by blast
qed

theorem table_of_contents_placement_witness:
  "toc_example = get_field toc_article ''summary'' ''No summary available'' \<and>
   is_structured toc_example \<and>
   length (parse_markdown_enhanced toc_example) = 11 \<and>
   add_article rejecting_lib [] toc_article =
     Inr ([Paragraph ''No Title'' title_style,
           Paragraph ''Published: No Date'' date_style,
           Paragraph ''Link: No Link Available'' link_style,
           Paragraph (toc_glyph @ '' Table of Contents'') report_title_style,
           Spacer 1 15]
          @ replicate 10 (toc_entry ''a'' 1) @ [toc_entry ''b'' 2]
          @ [Spacer 1 20, PageBreak]
          @ replicate 10 (Paragraph ''a'' title_style) @ [Paragraph ''b'' proposal_h2_style]
          @ [Spacer 1 15])"
proof -
  have 1: "add_article rejecting_lib [] toc_article =
     Inr ([Paragraph ''No Title'' title_style,
           Paragraph ''Published: No Date'' date_style,
           Paragraph ''Link: No Link Available'' link_style,
           Paragraph (toc_glyph @ '' Table of Contents'') report_title_style,
           Spacer 1 15]
          @ replicate 10 (toc_entry ''a'' 1) @ [toc_entry ''b'' 2]
          @ [Spacer 1 20, PageBreak]
          @ replicate 10 (Paragraph ''a'' title_style) @ [Paragraph ''b'' proposal_h2_style]
          @ [Spacer 1 15])"
    using table_of_contents_placement [OF toc_article_summary [symmetric]
        toc_example_structured toc_example_elements [symmetric], of rejecting_lib "[]"]
    by (simp add: toc_article_head numeral_eq_Suc layout_elements_rejecting
        layout_elements_ok_def keep_together_def constructs_rejecting
        constructs_toc_entry_rejecting)
  show ?thesis
    using 1 toc_example_structured
    by (simp add: toc_example_elements toc_article_summary)
qed

text \<open>The block before the table of contents is the link paragraph; the title is
  three blocks before it.\<close>

theorem toc_after_title_counterexample:
  "(case add_article rejecting_lib [] toc_article of
      Inl e \<Rightarrow> []
    | Inr story \<Rightarrow> take 4 story) =
     [Paragraph ''No Title'' title_style,
      Paragraph ''Published: No Date'' date_style,
      Paragraph ''Link: No Link Available'' link_style,
      Paragraph (toc_glyph @ '' Table of Contents'') report_title_style]"
  using add_article_structured [OF toc_article_summary [symmetric]
      toc_example_structured toc_example_elements [symmetric], of rejecting_lib "[]"]
  by (simp add: toc_article_head numeral_eq_Suc layout_elements_rejecting
      layout_elements_ok_def keep_together_def constructs_rejecting
      constructs_toc_entry_rejecting toc_blocks_def)

section \<open>Claim C3: the level of a header\<close>

text \<open>
  Claim C3, as amended. For every \<open>n\<close> of at least 1 and every text \<open>X\<close> without a line
  break and without a backslash, the tokenizer turns the line of \<open>n\<close> markers
  \<^verbatim>\<open>#\<close>, a space and \<open>X\<close> into exactly one header whose text is \<open>X\<close> without its
  outer white space and whose level is \<open>n\<close>, also when \<open>n\<close> is greater than 4: the
  tokenizer does not clamp the level. It is the layout that falls back to the deepest
  header style for every level of 4 and more.
\<close>

theorem header_level_is_marker_count:
  assumes "0 < n" and "newline \<notin> set X" and "backslash \<notin> set X"
  shows "parse_markdown_enhanced (replicate n (CHR ''#'') @ '' '' @ X) =
           [HeaderE (strip X) n (detect_section_type (strip X))] \<and>
         (4 \<le> n \<longrightarrow> header_style n = h4_style)"
  using parse_header_line [OF assms] by (simp add: header_style_def)

theorem header_level_is_marker_count_witness:
  "(0::nat) < 5 \<and> newline \<notin> set ''Deep dive'' \<and> backslash \<notin> set ''Deep dive'' \<and>
   parse_markdown_enhanced (replicate 5 (CHR ''#'') @ '' '' @ ''Deep dive'') =
     [HeaderE ''Deep dive'' 5 General] \<and>
   header_style 5 = h4_style"
proof -
  have a: "(0::nat) < 5" by simp
  have b: "newline \<notin> set ''Deep dive''" by (simp add: newline_def)
  have c: "backslash \<notin> set ''Deep dive''" by (simp add: backslash_def)
  have d: "detect_section_type ''Deep dive'' = General" by code_simp
  have s: "strip ''Deep dive'' = ''Deep dive''" by (simp add: strip_nonspace isspace_def)
  show ?thesis
    using header_level_is_marker_count [OF a b c] a b c unfolding s d by simp
qed

text \<open>Six markers give level 6, not the maximum depth 4.\<close>

theorem header_level_clamp_counterexample:
  "parse_markdown_enhanced ''###### X'' = [HeaderE ''X'' 6 General] \<and>
   parse_markdown_enhanced ''###### X'' \<noteq> [HeaderE ''X'' 4 General]"
proof -
  have d: "detect_section_type ''X'' = General" by code_simp
  have r: "replicate 6 (CHR ''#'') @ '' '' @ ''X'' = ''###### X''" by (simp add: numeral_eq_Suc)
  have g: "parse_markdown_enhanced (replicate 6 (CHR ''#'') @ '' '' @ ''X'') =
             [HeaderE (strip ''X'') 6 (detect_section_type (strip ''X''))]"
    by (rule parse_header_line) (simp_all add: newline_def backslash_def)
  have s: "strip ''X'' = ''X''" by (simp add: strip_nonspace isspace_def)
  have "parse_markdown_enhanced ''###### X'' = [HeaderE ''X'' 6 General]"
    using g unfolding s d r .
  then show ?thesis by simp
qed

section \<open>Claim C4: routing of a summary\<close>

text \<open>
  Claim C4. A summary goes through the structured path if and only if it is longer
  than 500 characters, or has more than 2 \<^verbatim>\<open>#\<close>, or more than 3 \<^verbatim>\<open>**\<close>, or more
  than 3 \<^verbatim>\<open>- \<close>, or contains the escaped line break (a backslash followed by
  \<^verbatim>\<open>n\<close>); otherwise it goes through the plain path. A summary of exactly 501
  characters is structured, and a marker-free one of exactly 500 characters is plain.
\<close>

theorem summary_routing:
  "add_summary lib story summary =
     (if 500 < length summary \<or> 2 < count_str ''#'' summary \<or> 3 < count_str ''**'' summary \<or>
         3 < count_str ''- '' summary \<or> contains [backslash, CHR ''n''] summary
      then add_structured lib story summary else add_plain lib story summary) \<and>
   (length summary = 501 \<longrightarrow>
      add_summary lib story summary = add_structured lib story summary) \<and>
   (length summary = 500 \<and> marker_free summary \<longrightarrow>
      add_summary lib story summary = add_plain lib story summary)"
  by (auto simp: add_summary_def is_structured_def marker_free_def count_str_absent)

theorem summary_routing_witness:
  "length (replicate 501 (CHR ''a'')) = 501 \<and>
   add_summary rejecting_lib [] (replicate 501 (CHR ''a'')) =
     add_structured rejecting_lib [] (replicate 501 (CHR ''a'')) \<and>
   length (replicate 500 (CHR ''a'')) = 500 \<and> marker_free (replicate 500 (CHR ''a'')) \<and>
   add_summary rejecting_lib [] (replicate 500 (CHR ''a'')) =
     Inr [Paragraph (replicate 500 (CHR ''a'')) summary_style]"
proof -
  have 1: "length (replicate 501 (CHR ''a'')) = 501" by simp
  have 2: "length (replicate 500 (CHR ''a'')) = 500 \<and> marker_free (replicate 500 (CHR ''a''))"
    by (simp add: marker_free_a)
  have 3: "add_plain rejecting_lib [] (replicate 500 (CHR ''a'')) =
      Inr [Paragraph (replicate 500 (CHR ''a'')) summary_style]"
    by (simp add: add_plain_checked markup_ok_rejecting)
  have 4: "add_summary rejecting_lib [] (replicate 501 (CHR ''a'')) =
      add_structured rejecting_lib [] (replicate 501 (CHR ''a''))"
    using summary_routing [of rejecting_lib "[]" "replicate 501 (CHR ''a'')"] 1 by blast
  have 5: "add_summary rejecting_lib [] (replicate 500 (CHR ''a'')) =
      add_plain rejecting_lib [] (replicate 500 (CHR ''a''))"
    using summary_routing [of rejecting_lib "[]" "replicate 500 (CHR ''a'')"] 2 by blast
  show ?thesis using 1 2 3 4 5 by (simp only: simp_thms)
qed

section \<open>Claim C5: the plain path\<close>



section \<open>Claim C6: the fallback of the date formatter\<close>

text \<open>
  Claim C6, at the inputs where the code departs from it. When the date text contains
  \<^verbatim>\<open>GMT\<close> and parses against none of the three formats, the formatter returns the
  text with every \<^verbatim>\<open>GMT\<close> removed and stripped of outer white space, not the
  original text.
\<close>

theorem format_date_fallback_drops_gmt:
  assumes "contains ''GMT'' date_string"
    and "\<forall>fmt\<in>set date_formats. strptime lib (strip (replace ''GMT'' [] date_string)) fmt = None"
  shows "format_date lib date_string = strip (replace ''GMT'' [] date_string)"
  using assms by (simp add: format_date_def try_formats_all_fail)

theorem format_date_fallback_drops_gmt_witness:
  "contains ''GMT'' ''Fri, 22 Aug 2025 GMT'' \<and>
   strptime rejecting_lib ''Fri, 22 Aug 2025'' ''%a, %d %b %Y %H:%M:%S'' = None \<and>
   strptime rejecting_lib ''Fri, 22 Aug 2025'' ''%Y-%m-%d'' = None \<and>
   strptime rejecting_lib ''Fri, 22 Aug 2025'' ''%d %b %Y'' = None \<and>
   format_date rejecting_lib ''Fri, 22 Aug 2025 GMT'' = ''Fri, 22 Aug 2025'' \<and>
   format_date rejecting_lib ''Fri, 22 Aug 2025 GMT'' \<noteq> ''Fri, 22 Aug 2025 GMT''"
proof -
  have a: "contains ''GMT'' ''Fri, 22 Aug 2025 GMT''" by (simp add: startswith_def)
  have b: "\<forall>fmt\<in>set date_formats.
             strptime rejecting_lib (strip (replace ''GMT'' [] ''Fri, 22 Aug 2025 GMT'')) fmt = None"
    by (simp add: rejecting_lib_def)
  have c: "strptime rejecting_lib ''Fri, 22 Aug 2025'' ''%a, %d %b %Y %H:%M:%S'' = None"
    "strptime rejecting_lib ''Fri, 22 Aug 2025'' ''%Y-%m-%d'' = None"
    "strptime rejecting_lib ''Fri, 22 Aug 2025'' ''%d %b %Y'' = None"
    by (simp_all add: rejecting_lib_def)
  have d: "format_date rejecting_lib ''Fri, 22 Aug 2025 GMT'' = ''Fri, 22 Aug 2025''"
    using format_date_fallback_drops_gmt [OF a b] by (simp only: gmt_example_stripped)
  have e: "''Fri, 22 Aug 2025'' \<noteq> ''Fri, 22 Aug 2025 GMT''" by simp
  show ?thesis using a c d e by (simp only: simp_thms)
qed

section \<open>Claim C7: the empty article list\<close>

text \<open>
  Claim C7. \<^verbatim>\<open>generate_report\<close> raises the precondition error, the
  \<^verbatim>\<open>ValueError\<close> "No articles provided for PDF generation", when and only when the
  article list is empty, and in that case the files are what they were before the
  call: the error is raised before any file is created or written.
\<close>

theorem empty_articles_precondition:
  "(fst (generate_report lib self articles files) =
      Inl (ValueError ''No articles provided for PDF generation'') \<longleftrightarrow> articles = []) \<and>
   generate_report lib self [] files =
     (Inl (ValueError ''No articles provided for PDF generation''), files)"
proof -
  have "fst (generate_report lib self articles files) \<noteq>
          Inl (ValueError ''No articles provided for PDF generation'')"
    if "articles \<noteq> []"
  proof (cases "build_story lib articles")
    case (Inl e)
    then have "e = ParagraphError \<or> e = KeyError ''source''" by (rule build_story_error)
    then show ?thesis using that Inl by (auto simp: generate_report_def)
  next
    case (Inr story)
    then show ?thesis using that by (simp add: generate_report_def)
  qed
  moreover have "generate_report lib self [] files =
     (Inl (ValueError ''No articles provided for PDF generation''), files)"
    by (simp add: generate_report_def)
  ultimately show ?thesis by (cases "articles = []") auto
qed

section \<open>Claim C8: the section classifier\<close>

text \<open>
  Claim C8. For every text, the classifier returns the first category, in the order
  ExecutiveSummary, Background, Objective, Methodology, ResearchAreas, Timeline,
  Investment, Deliverable, ResearchQuestions, Participants, whose keyword set has a
  member occurring in the lower-cased text, and General when there is none. In
  particular a text that contains the phrase "executive summary" in any letter case
  (a part \<open>u\<close> whose lower-casing is the phrase), whatever surrounds it, is classified
  ExecutiveSummary.
\<close>

theorem detect_section_type_priority:
  "detect_section_type text = first_category (lower text) \<and>
   (lower u = ''executive summary'' \<longrightarrow> detect_section_type (a @ u @ b) = ExecutiveSummary)"
proof (intro conjI impI)
  show "detect_section_type text = first_category (lower text)"
    unfolding detect_chain chain_strip [OF keywords_plain] first_category_def
    by (rule chain_find)
next
  assume u: "lower u = ''executive summary''"
  have "contains ''executive summary'' (lower (a @ u @ b))"
    unfolding contains_iff lower_append u by blast
  then have "any_keyword [''executive summary'', ''executive overview'', ''summary'']
               (lower (a @ u @ b))"
    by (simp add: any_keyword_def)
  moreover have "detect_section_type (a @ u @ b) = chain section_keywords (lower (a @ u @ b))"
    by (simp only: detect_chain chain_strip [OF keywords_plain])
  ultimately show "detect_section_type (a @ u @ b) = ExecutiveSummary"
    by (simp only: section_keywords_def chain.simps if_True)
qed

theorem detect_section_type_priority_witness:
  "lower ''Executive SUMMARY'' = ''executive summary'' \<and>
   detect_section_type (''(1) '' @ ''Executive SUMMARY'' @ '': the plan'') = ExecutiveSummary \<and>
   detect_section_type ''Budget and Timeline'' = first_category (lower ''Budget and Timeline'') \<and>
   first_category (lower ''Budget and Timeline'') = Timeline"
proof -
  have u: "lower ''Executive SUMMARY'' = ''executive summary''"
    by code_simp
  have t: "first_category (lower ''Budget and Timeline'') = Timeline"
    by code_simp
  from detect_section_type_priority [of "''Budget and Timeline''" "''Executive SUMMARY''"
      "''(1) ''" "'': the plan''"] u t
  show ?thesis by blast
qed

section \<open>Claim C9: the inline formatter applied twice\<close>

text \<open>
  Claim C9, as amended. Applying the inline formatter to its own result gives the same
  result again exactly when none of the formatter's patterns (the three bold patterns,
  the two italic patterns, inline code, link) matches anywhere in that result. Marker
  characters that are left without forming a span, as the star of \<^verbatim>\<open>2 * 3\<close> or
  the underscore inside the address of a converted link, do not disturb this; a span
  that is left, as the outer backticks of a code span written with two backticks on
  each side, is wrapped once more.
\<close>

theorem process_markdown_text_idempotent_iff_settled:
  "process_markdown_text (process_markdown_text s) = process_markdown_text s \<longleftrightarrow>
   settled (process_markdown_text s)"
  by (rule process_markdown_text_fixed_point)

theorem process_markdown_text_idempotent_iff_settled_witness:
  "process_markdown_text ''2 * 3'' = ''2 * 3'' \<and>
   settled (process_markdown_text ''2 * 3'') \<and>
   process_markdown_text (process_markdown_text ''2 * 3'') = process_markdown_text ''2 * 3'' \<and>
   process_markdown_text ''[x](http://a.b/c_d)'' =
     ''<link href='' @ [dquote] @ ''http://a.b/c_d'' @ [dquote] @ ''>x</link>'' \<and>
   settled (process_markdown_text ''[x](http://a.b/c_d)'') \<and>
   process_markdown_text (process_markdown_text ''[x](http://a.b/c_d)'') =
     process_markdown_text ''[x](http://a.b/c_d)'' \<and>
   process_markdown_text ''**a** *b*'' = ''<b>a</b> <i>b</i>'' \<and>
   settled (process_markdown_text ''**a** *b*'') \<and>
   process_markdown_text (process_markdown_text ''**a** *b*'') =
     process_markdown_text ''**a** *b*''"
proof -
  have e1: "process_markdown_text ''2 * 3'' = ''2 * 3''"
    by (simp add: fmt_eval)
  have s1: "settled ''2 * 3''"
    by (simp add: settled_def formatter_patterns_def fmt_eval)
  have e2: "process_markdown_text ''[x](http://a.b/c_d)'' =
      ''<link href='' @ [dquote] @ ''http://a.b/c_d'' @ [dquote] @ ''>x</link>''"
    by (simp add: fmt_eval)
  have s2: "settled (''<link href='' @ [dquote] @ ''http://a.b/c_d'' @ [dquote] @ ''>x</link>'')"
    by (simp add: settled_def formatter_patterns_def fmt_eval)
  have e3: "process_markdown_text ''**a** *b*'' = ''<b>a</b> <i>b</i>''"
    by (simp add: fmt_eval)
  have s3: "settled ''<b>a</b> <i>b</i>''"
    by (simp add: settled_def formatter_patterns_def fmt_eval)
  have i1: "process_markdown_text (process_markdown_text ''2 * 3'') =
      process_markdown_text ''2 * 3''"
    using process_markdown_text_idempotent_iff_settled [of "''2 * 3''"] s1
    by (simp only: e1)
  have i2: "process_markdown_text (process_markdown_text ''[x](http://a.b/c_d)'') =
      process_markdown_text ''[x](http://a.b/c_d)''"
    using process_markdown_text_idempotent_iff_settled [of "''[x](http://a.b/c_d)''"] s2
    by (simp only: e2)
  have i3: "process_markdown_text (process_markdown_text ''**a** *b*'') =
      process_markdown_text ''**a** *b*''"
    using process_markdown_text_idempotent_iff_settled [of "''**a** *b*''"] s3
    by (simp only: e3)
  show ?thesis
    using i1 i2 i3 s1 s2 s3 by (simp only: e1 e2 e3 simp_thms)
qed

text \<open>A code span written with two backticks on each side: the first application
  wraps the inner span and leaves the outer backticks, which form a span in the
  result; the second application wraps the result again.\<close>

theorem process_markdown_text_idempotent_counterexample:
  "process_markdown_text [CHR 0x60, CHR 0x60, CHR ''a'', CHR 0x60, CHR 0x60] =
     [CHR 0x60] @ ''<code>a</code>'' @ [CHR 0x60] \<and>
   process_markdown_text
     (process_markdown_text [CHR 0x60, CHR 0x60, CHR ''a'', CHR 0x60, CHR 0x60]) =
     ''<code><code>a</code></code>'' \<and>
   process_markdown_text
     (process_markdown_text [CHR 0x60, CHR 0x60, CHR ''a'', CHR 0x60, CHR 0x60]) \<noteq>
     process_markdown_text [CHR 0x60, CHR 0x60, CHR ''a'', CHR 0x60, CHR 0x60]"
proof -
  have 1: "process_markdown_text [CHR 0x60, CHR 0x60, CHR ''a'', CHR 0x60, CHR 0x60] =
     [CHR 0x60] @ ''<code>a</code>'' @ [CHR 0x60]"
    by (simp add: fmt_eval)
  have 2: "process_markdown_text ([CHR 0x60] @ ''<code>a</code>'' @ [CHR 0x60]) =
     ''<code><code>a</code></code>''"
    by (simp add: fmt_eval)
  show ?thesis unfolding 1 2 by simp
qed

section \<open>Claim C10: what is emitted once, and what twice\<close>

text \<open>
  Claim C10, where the code departs from it. The paragraph of a quote is never
  emitted: its style names the face \<^verbatim>\<open>Helvetica-Italic\<close>, which the rendering
  library does not know, so the constructor call of line 929 raises, the layout of
  any elements with a quote among them raises, and \<^verbatim>\<open>generate_report\<close> on an
  article whose summary has a quote line raises and writes no file. For the other
  elements the claim holds: the layout returns when every element is accepted, and
  whenever it returns, the blocks of the story outside the keep-together groups are,
  element by element and in order, the block of each non-empty paragraph in the style
  of its category and the blocks of each header, list item, numbered item and rule,
  each once, and the members of the groups are, in order, one copy in the generic
  long-form style of each non-empty paragraph and nothing else.
\<close>

theorem quote_construction_raises:
  "(list_ex is_quote els \<longrightarrow> layout_elements lib story els = Inl ParagraphError) \<and>
   (list_all (accepted lib) els \<longrightarrow> (\<exists>out. layout_elements lib [] els = Inr out)) \<and>
   (layout_elements lib [] els = Inr out \<longrightarrow>
      \<not> list_ex is_quote els \<and>
      ungrouped out = concat (map direct_blocks els) \<and>
      group_members out = concat (map buffered_blocks els)) \<and>
   parse_markdown_enhanced quote_example =
     [HeaderE ''a'' 1 General, HeaderE ''a'' 1 General, HeaderE ''a'' 1 General, QuoteE ''q''] \<and>
   generate_report lib self [quote_article] files = (Inl ParagraphError, files)"
proof -
  have a: "layout_elements lib story els = Inl ParagraphError"
    if "list_ex is_quote els" for story
    using quotes_not_accepted [OF that, of lib] by (simp add: layout_elements_checked)
  have b: "\<exists>out. layout_elements lib [] els = Inr out" if "list_all (accepted lib) els"
    using that by (simp add: layout_elements_checked)
  have c: "\<not> list_ex is_quote els \<and>
      ungrouped out = concat (map direct_blocks els) \<and>
      group_members out = concat (map buffered_blocks els)"
    if "layout_elements lib [] els = Inr out"
  proof -
    have "out = layout_elements_ok [] els"
      using that by (simp add: layout_elements_checked split: if_splits)
    moreover have "\<not> list_ex is_quote els" using a [of "[]"] that by auto
    ultimately show ?thesis using layout_ok_once_and_twice [of els] by simp
  qed
  have d: "generate_report lib self [quote_article] files = (Inl ParagraphError, files)"
    by (simp add: generate_report_def quote_report_raises)
  show ?thesis using a b c d quote_example_elements by blast
qed

theorem quote_construction_raises_witness:
  "list_ex is_quote [ParagraphE ''a'' Timeline, QuoteE ''q''] \<and>
   layout_elements rejecting_lib [] [ParagraphE ''a'' Timeline, QuoteE ''q''] =
     Inl ParagraphError \<and>
   list_all (accepted rejecting_lib) [ParagraphE ''a'' Timeline, ListItemE ''x'' 0, HrE] \<and>
   layout_elements rejecting_lib [] [ParagraphE ''a'' Timeline, ListItemE ''x'' 0, HrE] =
     Inr [Paragraph ''a'' timeline_style,
          Paragraph (bullet_glyph @ '' x'') enhanced_bullet_list_style,
          Spacer 1 10,
          Paragraph (concat (replicate 60 rule_glyph)) long_content_style,
          Spacer 1 10,
          KeepTogether [Paragraph ''a'' long_content_style]] \<and>
   ungrouped [Paragraph ''a'' timeline_style,
              Paragraph (bullet_glyph @ '' x'') enhanced_bullet_list_style,
              Spacer 1 10,
              Paragraph (concat (replicate 60 rule_glyph)) long_content_style,
              Spacer 1 10,
              KeepTogether [Paragraph ''a'' long_content_style]] =
     concat (map direct_blocks [ParagraphE ''a'' Timeline, ListItemE ''x'' 0, HrE]) \<and>
   group_members [Paragraph ''a'' timeline_style,
              Paragraph (bullet_glyph @ '' x'') enhanced_bullet_list_style,
              Spacer 1 10,
              Paragraph (concat (replicate 60 rule_glyph)) long_content_style,
              Spacer 1 10,
              KeepTogether [Paragraph ''a'' long_content_style]] =
     concat (map buffered_blocks [ParagraphE ''a'' Timeline, ListItemE ''x'' 0, HrE])"
proof -
  define out where "out = [Paragraph ''a'' timeline_style,
              Paragraph (bullet_glyph @ '' x'') enhanced_bullet_list_style,
              Spacer 1 10,
              Paragraph (concat (replicate 60 rule_glyph)) long_content_style,
              Spacer 1 10,
              KeepTogether [Paragraph ''a'' long_content_style]]"
  have q: "list_ex is_quote [ParagraphE ''a'' Timeline, QuoteE ''q'']" by simp
  have acc: "list_all (accepted rejecting_lib)
      [ParagraphE ''a'' Timeline, ListItemE ''x'' 0, HrE]"
    by (simp add: accepted_rejecting)
  have run: "layout_elements rejecting_lib [] [ParagraphE ''a'' Timeline, ListItemE ''x'' 0, HrE] =
      Inr out"
    unfolding out_def
    by (simp add: layout_elements_def construct_def constructs_rejecting paragraph_style_def)
  have 1: "layout_elements rejecting_lib [] [ParagraphE ''a'' Timeline, QuoteE ''q''] =
      Inl ParagraphError"
    using quote_construction_raises
      [of "[ParagraphE ''a'' Timeline, QuoteE ''q'']" rejecting_lib "[]"] q
    by blast
  have 2: "ungrouped out =
        concat (map direct_blocks [ParagraphE ''a'' Timeline, ListItemE ''x'' 0, HrE]) \<and>
      group_members out =
        concat (map buffered_blocks [ParagraphE ''a'' Timeline, ListItemE ''x'' 0, HrE])"
    using quote_construction_raises
      [of "[ParagraphE ''a'' Timeline, ListItemE ''x'' 0, HrE]" rejecting_lib "[]" out] run
    by blast
  show ?thesis
    using q acc run 1 2 unfolding out_def by (simp only: simp_thms)
qed

end
